theory Spec2Isabelle
  imports Main "HOL-Library.Sublist"
begin

section \<open>Python values used by the crawler, the chunker and the answer path\<close>

text \<open>
  Text is a list of characters. Exceptions are values: a function of the source that can
  raise returns \<open>py_error + 'a\<close>, with \<open>Inl\<close> the exception that leaves the function.
\<close>

datatype py_error =
    ValueError string
  | TypeError string
  | LibraryError string

text \<open>\<open>str(e)\<close>: the message of an exception.\<close>

fun str_error :: "py_error \<Rightarrow> string" where
  "str_error (ValueError msg) = msg"
| "str_error (TypeError msg) = msg"
| "str_error (LibraryError msg) = msg"

text \<open>\<open>str.isspace\<close> on the code points below 256.\<close>

definition isspace :: "char \<Rightarrow> bool" where
  "isspace c = (let n = (of_char c :: nat) in
     (9 \<le> n \<and> n \<le> 13) \<or> (28 \<le> n \<and> n \<le> 32) \<or> n = 133 \<or> n = 160)"

text \<open>\<open>s.strip()\<close>: whitespace removed at both ends.\<close>

definition strip :: "string \<Rightarrow> string" where
  "strip s = rev (dropWhile isspace (rev (dropWhile isspace s)))"

text \<open>
  \<open>s[i:j]\<close> with a step of one: a negative bound counts from the end, and both bounds are
  clipped to the string.
\<close>

definition clip_index :: "nat \<Rightarrow> int \<Rightarrow> nat" where
  "clip_index n i = (if i < 0 then nat (int n + i) else min n (nat i))"

definition py_slice :: "'a list \<Rightarrow> int \<Rightarrow> int \<Rightarrow> 'a list" where
  "py_slice xs i j =
     (let lo = clip_index (length xs) i; hi = clip_index (length xs) j
      in take (hi - lo) (drop lo xs))"

text \<open>\<open>range(start, stop, step)\<close>, which raises on a step of zero.\<close>

definition range_len :: "int \<Rightarrow> int \<Rightarrow> int \<Rightarrow> nat" where
  "range_len lo hi step =
     (if 0 < step \<and> lo < hi then nat (1 + (hi - 1 - lo) div step)
      else if step < 0 \<and> hi < lo then nat (1 + (lo - 1 - hi) div (- step))
      else 0)"

definition py_range :: "int \<Rightarrow> int \<Rightarrow> int \<Rightarrow> py_error + int list" where
  "py_range lo hi step =
     (if step = 0 then Inl (ValueError ''range() arg 3 must not be zero'')
      else Inr (map (\<lambda>k. lo + int k * step) [0..<range_len lo hi step]))"

text \<open>\<open>str(n)\<close> for an integer.\<close>

definition digit_char :: "nat \<Rightarrow> char" where
  "digit_char d = char_of (48 + d)"

fun str_nat :: "nat \<Rightarrow> string" where
  "str_nat n = (if n < 10 then [digit_char n] else str_nat (n div 10) @ [digit_char (n mod 10)])"

definition str_int :: "int \<Rightarrow> string" where
  "str_int i = (if i < 0 then CHR ''-'' # str_nat (nat (- i)) else str_nat (nat i))"

section \<open>Fixed-size chunking (\<open>WebsiteIngestion.chunk_content\<close>)\<close>

text \<open>
  A page is a dictionary with at least the keys \<open>url\<close>, \<open>title\<close> and \<open>content\<close>; each
  scraper adds its own keys to it.
\<close>

record page =
  url :: string
  title :: string
  content :: string

record ingested_page = page +
  links :: "string list"

record crawled_page = page +
  description :: string
  headings :: "(string \<times> string list) list"
  word_count :: nat

record chunk =
  chunk_url :: string
  chunk_title :: string
  chunk_text :: string
  chunk_id :: string

text \<open>The body of the inner loop: one window, appended when its stripped length exceeds 50.\<close>

definition substantial :: "string \<Rightarrow> bool" where
  "substantial w = (50 < length (strip w))"

definition chunk_step :: "'a page_scheme \<Rightarrow> int \<Rightarrow> int \<Rightarrow> chunk list \<Rightarrow> int \<Rightarrow> chunk list" where
  "chunk_step p chunk_size overlap chunks i =
     (let window = py_slice (content p) i (i + chunk_size)
      in if substantial window
         then chunks @ [\<lparr>chunk_url = url p, chunk_title = title p, chunk_text = window,
                          chunk_id = url p @ ''_'' @ str_int (i div (chunk_size - overlap))\<rparr>]
         else chunks)"

fun chunk_pages :: "'a page_scheme list \<Rightarrow> int \<Rightarrow> int \<Rightarrow> chunk list \<Rightarrow> py_error + chunk list" where
  "chunk_pages [] chunk_size overlap chunks = Inr chunks"
| "chunk_pages (p # ps) chunk_size overlap chunks =
     (case py_range 0 (int (length (content p))) (chunk_size - overlap) of
        Inl e \<Rightarrow> Inl e
      | Inr idx \<Rightarrow> chunk_pages ps chunk_size overlap
                    (foldl (chunk_step p chunk_size overlap) chunks idx))"

definition chunk_content :: "'a page_scheme list \<Rightarrow> int \<Rightarrow> int \<Rightarrow> py_error + chunk list" where
  "chunk_content pages chunk_size overlap = chunk_pages pages chunk_size overlap []"

text \<open>
  The windows the loop visits, \<open>content[i:i + chunk_size]\<close> at each index of the range, before
  the length test; and the reassembly of a text from its windows, dropping from every window
  but the first the \<open>overlap\<close> characters it shares with its predecessor.
\<close>

definition windows :: "string \<Rightarrow> int \<Rightarrow> int \<Rightarrow> string list" where
  "windows cont chunk_size overlap =
     (case py_range 0 (int (length cont)) (chunk_size - overlap) of
        Inl e \<Rightarrow> []
      | Inr idx \<Rightarrow> map (\<lambda>i. py_slice cont i (i + chunk_size)) idx)"

definition remove_overlap :: "int \<Rightarrow> string list \<Rightarrow> string" where
  "remove_overlap overlap ws =
     (case ws of [] \<Rightarrow> [] | w # rest \<Rightarrow> w @ concat (map (drop (nat overlap)) rest))"

definition reassemble :: "int \<Rightarrow> py_error + ('a chunk_scheme) list \<Rightarrow> py_error + string" where
  "reassemble overlap r =
     (case r of Inl e \<Rightarrow> Inl e
      | Inr chunks \<Rightarrow> Inr (remove_overlap overlap (map chunk_text chunks)))"

section \<open>Chunking by structure (\<open>AdvancedWebScraper.chunk_content_by_structure\<close>)\<close>

datatype chunk_kind = Semantic | Fixed_size

record typed_chunk = chunk +
  chunk_type :: chunk_kind

definition is_terminator :: "char \<Rightarrow> bool" where
  "is_terminator c = (c = CHR ''.'' \<or> c = CHR ''!'' \<or> c = CHR ''?'')"

text \<open>
  \<open>re.split(r'[.!?]+', content)\<close>: the pieces between maximal runs of terminators, the empty
  pieces at both ends included.
\<close>

fun re_split_terminators :: "string \<Rightarrow> string list" where
  "re_split_terminators [] = [[]]"
| "re_split_terminators [c] = (if is_terminator c then [[], []] else [[c]])"
| "re_split_terminators (c # d # cs) =
     (if is_terminator c
      then (if is_terminator d then re_split_terminators (d # cs)
            else [] # re_split_terminators (d # cs))
      else (case re_split_terminators (d # cs) of
              [] \<Rightarrow> [[c]]
            | piece # pieces \<Rightarrow> (c # piece) # pieces))"

text \<open>
  The loop over the sentences of \<open>_chunk_by_headings\<close>, with its two variables \<open>chunks\<close> and
  \<open>current_chunk\<close>, and the flush after the loop.
\<close>

fun accumulate :: "string list \<Rightarrow> string list \<Rightarrow> string \<Rightarrow> string list" where
  "accumulate [] chunks current_chunk =
     (if current_chunk \<noteq> [] then chunks @ [strip current_chunk] else chunks)"
| "accumulate (s # ss) chunks current_chunk =
     (let sentence = strip s
      in if sentence = [] then accumulate ss chunks current_chunk
         else if length current_chunk + length sentence < 1000
         then accumulate ss chunks (current_chunk @ sentence @ ''. '')
         else accumulate ss
                (if current_chunk \<noteq> [] then chunks @ [strip current_chunk] else chunks)
                (sentence @ ''. ''))"

definition chunk_by_headings :: "string \<Rightarrow> (string \<times> string list) list \<Rightarrow> string list" where
  "chunk_by_headings body hs = accumulate (re_split_terminators body) [] []"

definition semantic_step :: "'a page_scheme \<Rightarrow> typed_chunk list \<Rightarrow> string \<Rightarrow> typed_chunk list" where
  "semantic_step p chunks piece =
     (if substantial piece
      then chunks @ [\<lparr>chunk_url = url p, chunk_title = title p, chunk_text = piece,
                       chunk_id = url p @ ''_'' @ str_int (int (length chunks)),
                       chunk_type = Semantic\<rparr>]
      else chunks)"

definition fallback_step ::
  "'a page_scheme \<Rightarrow> int \<Rightarrow> int \<Rightarrow> typed_chunk list \<Rightarrow> int \<Rightarrow> typed_chunk list" where
  "fallback_step p chunk_size overlap chunks i =
     (let window = py_slice (content p) i (i + chunk_size)
      in if substantial window
         then chunks @ [\<lparr>chunk_url = url p, chunk_title = title p, chunk_text = window,
                          chunk_id = url p @ ''_'' @ str_int (i div (chunk_size - overlap)),
                          chunk_type = Fixed_size\<rparr>]
         else chunks)"

fun structure_pages ::
  "crawled_page list \<Rightarrow> int \<Rightarrow> int \<Rightarrow> typed_chunk list \<Rightarrow> py_error + typed_chunk list" where
  "structure_pages [] chunk_size overlap chunks = Inr chunks"
| "structure_pages (p # ps) chunk_size overlap chunks =
     (let heading_chunks = chunk_by_headings (content p) (headings p)
      in if heading_chunks \<noteq> []
         then structure_pages ps chunk_size overlap (foldl (semantic_step p) chunks heading_chunks)
         else (case py_range 0 (int (length (content p))) (chunk_size - overlap) of
                 Inl e \<Rightarrow> Inl e
               | Inr idx \<Rightarrow> structure_pages ps chunk_size overlap
                             (foldl (fallback_step p chunk_size overlap) chunks idx)))"

definition chunk_content_by_structure ::
  "crawled_page list \<Rightarrow> int \<Rightarrow> int \<Rightarrow> py_error + typed_chunk list" where
  "chunk_content_by_structure pages chunk_size overlap =
     structure_pages pages chunk_size overlap []"

section \<open>Text cleaning\<close>

text \<open>The class \<open>\w\<close> of \<open>re\<close> on the code points below 256.\<close>

definition is_word :: "char \<Rightarrow> bool" where
  "is_word c = (let n = (of_char c :: nat) in
     (48 \<le> n \<and> n \<le> 57) \<or> (65 \<le> n \<and> n \<le> 90) \<or> n = 95 \<or> (97 \<le> n \<and> n \<le> 122) \<or>
     n = 170 \<or> n = 178 \<or> n = 179 \<or> n = 181 \<or> n = 185 \<or> n = 186 \<or>
     (188 \<le> n \<and> n \<le> 190) \<or> (192 \<le> n \<and> n \<le> 214) \<or> (216 \<le> n \<and> n \<le> 246) \<or>
     (248 \<le> n \<and> n \<le> 255))"

text \<open>\<open>re.sub(r'\s+', ' ', text)\<close> and \<open>re.sub(r' +', ' ', text)\<close>: a run becomes one space.\<close>

fun squeeze :: "(char \<Rightarrow> bool) \<Rightarrow> string \<Rightarrow> string" where
  "squeeze P [] = []"
| "squeeze P [c] = (if P c then '' '' else [c])"
| "squeeze P (c # d # cs) =
     (if P c then (if P d then squeeze P (d # cs) else CHR '' '' # squeeze P (d # cs))
      else c # squeeze P (d # cs))"

text \<open>\<open>re.sub(r'([.!?])\1+', r'\1', text)\<close>: a run of one terminator becomes that terminator.\<close>

fun squeeze_terminators :: "string \<Rightarrow> string" where
  "squeeze_terminators (c # d # cs) =
     (if is_terminator c \<and> c = d then squeeze_terminators (d # cs)
      else c # squeeze_terminators (d # cs))"
| "squeeze_terminators cs = cs"

definition kept_by_ingestion :: "char \<Rightarrow> bool" where
  "kept_by_ingestion c = (is_word c \<or> isspace c \<or> c \<in> set ''.,!?;:-()'')"

definition kept_by_scraper :: "char \<Rightarrow> bool" where
  "kept_by_scraper c =
     (is_word c \<or> isspace c \<or> c \<in> set (''.,!?;:-()[]{}'' @ [CHR 0x22, CHR 0x27] @ ''/@#$%&*+=~`''))"

definition clean_text_ingestion :: "string \<Rightarrow> string" where
  "clean_text_ingestion t =
     strip (squeeze (\<lambda>c. c = CHR '' '') (filter kept_by_ingestion (squeeze isspace t)))"

definition clean_text_scraper :: "string \<Rightarrow> string" where
  "clean_text_scraper t =
     strip (squeeze_terminators
       (squeeze (\<lambda>c. c = CHR '' '') (filter kept_by_scraper (squeeze isspace t))))"

text \<open>\<open>len(s.split())\<close>: the number of maximal runs of characters that are not whitespace.\<close>

fun count_words :: "bool \<Rightarrow> string \<Rightarrow> nat" where
  "count_words in_word [] = 0"
| "count_words in_word (c # cs) =
     (if isspace c then count_words False cs
      else (if in_word then 0 else 1) + count_words True cs)"

definition split_len :: "string \<Rightarrow> nat" where
  "split_len s = count_words False s"

section \<open>The fetched page\<close>

text \<open>
  The HTTP client and the HTML parser are outside the repository. What a scraper sees of
  them is the outcome of the request and, of the parsed document as the scraper has prepared
  it, the answers to the queries it makes: the text of the title
  element, the content of the description element, the text of the first element a selector
  matches, the text of the body, the \<open>href\<close> of every anchor, and the texts of the elements of
  a heading level.
\<close>

record soup =
  title_tag :: "string option"
  meta_description :: "string option"
  select_one :: "string \<Rightarrow> string option"
  body :: "string option"
  anchors :: "string list"
  find_all :: "string \<Rightarrow> string list"

datatype fetched =
    Status_error nat
  | Request_error string
  | Parsed soup

text \<open>
  The web answers a request depending on the requests made before it: \<open>web log u\<close> is the
  outcome of \<open>GET u\<close> after the requests \<open>log\<close>.
\<close>

type_synonym web = "string list \<Rightarrow> string \<Rightarrow> fetched"

text \<open>
  \<open>urllib.parse\<close> is outside the repository as well: \<open>urlparse\<close> gives the scheme and the
  network location of a URL, \<open>urljoin\<close> resolves a link against a base, and both raise
  on some inputs. The order in which a \<open>set\<close> of strings is listed is that of the
  interpreter.
\<close>

record url_parts =
  scheme :: string
  netloc :: string

record stdlib =
  urlparse :: "string \<Rightarrow> py_error + url_parts"
  urljoin :: "string \<Rightarrow> string \<Rightarrow> py_error + string"
  list_of_set :: "string list \<Rightarrow> string list"

section \<open>Link filtering\<close>

definition newline :: char where
  "newline = CHR 0x0A"

definition lower_char :: "char \<Rightarrow> char" where
  "lower_char c = (let n = (of_char c :: nat) in if 65 \<le> n \<and> n \<le> 90 then char_of (n + 32) else c)"

definition lower :: "string \<Rightarrow> string" where
  "lower s = map lower_char s"

text \<open>
  The patterns of \<open>is_valid_url\<close> are matched with \<open>re.match\<close> and \<open>re.IGNORECASE\<close>. A dot
  matches no newline, so the text before the match lies in the first line of the URL;
  \<open>$\<close> matches at the end of the string and before a newline that ends it.
\<close>

definition first_line :: "string \<Rightarrow> string" where
  "first_line s = takeWhile (\<lambda>c. c \<noteq> newline) s"

definition after_first_line :: "string \<Rightarrow> string" where
  "after_first_line s = dropWhile (\<lambda>c. c \<noteq> newline) s"

definition asset_extensions :: "string list" where
  "asset_extensions = [''pdf'', ''jpg'', ''jpeg'', ''png'', ''gif'', ''svg'', ''css'', ''js'', ''ico'']"

definition skip_words :: "string list" where
  "skip_words = [''login'', ''register'', ''logout'', ''admin'', ''api'', ''feed'', ''sitemap'',
     ''search'', ''cart'', ''checkout'', ''account'', ''profile'', ''settings'', ''help'', ''faq'',
     ''contact'', ''privacy'', ''terms'', ''cookie'', ''legal'']"

text \<open>\<open>re.match(r'.*\.(pdf|jpg|...)$', url, re.IGNORECASE)\<close>\<close>

definition matches_asset :: "string \<Rightarrow> bool" where
  "matches_asset u =
     ((after_first_line u = [] \<or> after_first_line u = [newline]) \<and>
      (\<exists>ext \<in> set asset_extensions. suffix (CHR ''.'' # ext) (lower (first_line u))))"

text \<open>\<open>re.match(r'.*/word.*', url, re.IGNORECASE)\<close>\<close>

definition matches_word :: "string \<Rightarrow> string \<Rightarrow> bool" where
  "matches_word w u = sublist (CHR ''/'' # w) (lower (first_line u))"

definition matches_skip_pattern :: "string \<Rightarrow> bool" where
  "matches_skip_pattern u = (matches_asset u \<or> (\<exists>w \<in> set skip_words. matches_word w u))"

text \<open>\<open>AdvancedWebScraper.is_valid_url\<close>; an exception of \<open>urlparse\<close> is caught and gives \<open>False\<close>.\<close>

definition is_valid_url :: "stdlib \<Rightarrow> bool \<Rightarrow> string \<Rightarrow> string \<Rightarrow> bool" where
  "is_valid_url lib domain_restrictions u base_domain =
     (case urlparse lib u of
        Inl e \<Rightarrow> False
      | Inr parsed \<Rightarrow>
          (case urlparse lib base_domain of
             Inl e \<Rightarrow> False
           | Inr base_parsed \<Rightarrow>
               if domain_restrictions \<and> netloc parsed \<noteq> netloc base_parsed then False
               else if matches_skip_pattern u then False
               else True))"

text \<open>
  \<open>re.sub(r'#.*$', '', url)\<close> and \<open>re.sub(r'\?.*$', '', url)\<close>: the text from the first
  such character that only the rest of a last line follows is removed, up to the newline that
  ends the string.
\<close>

fun cut_from :: "char \<Rightarrow> string \<Rightarrow> string" where
  "cut_from c [] = []"
| "cut_from c (x # xs) =
     (if x = c \<and> newline \<notin> set (butlast xs)
      then (if xs \<noteq> [] \<and> last xs = newline then [newline] else [])
      else x # cut_from c xs)"

text \<open>
  \<open>AdvancedWebScraper.extract_links\<close>. Its calls of \<open>urlparse\<close> and \<open>urljoin\<close> are outside
  any handler of its own, so their exception leaves the function.
\<close>

fun valid_links :: "stdlib \<Rightarrow> bool \<Rightarrow> string \<Rightarrow> string list \<Rightarrow> string list \<Rightarrow> py_error + string list" where
  "valid_links lib restr base_url [] acc = Inr acc"
| "valid_links lib restr base_url (href # hrefs) acc =
     (case urljoin lib base_url href of
        Inl e \<Rightarrow> Inl e
      | Inr absolute_url \<Rightarrow>
          (let clean_url = cut_from (CHR ''?'') (cut_from (CHR ''#'') absolute_url)
           in valid_links lib restr base_url hrefs
                (if is_valid_url lib restr clean_url base_url then acc @ [clean_url] else acc)))"

definition extract_links :: "stdlib \<Rightarrow> bool \<Rightarrow> soup \<Rightarrow> string \<Rightarrow> py_error + string list" where
  "extract_links lib restr sp base_url =
     (case urlparse lib base_url of
        Inl e \<Rightarrow> Inl e
      | Inr base_parsed \<Rightarrow>
          (case valid_links lib restr base_url (anchors sp) [] of
             Inl e \<Rightarrow> Inl e
           | Inr found \<Rightarrow> Inr (list_of_set lib found)))"

text \<open>The test of \<open>WebsiteIngestion._extract_links\<close> on a resolved link.\<close>

definition static_suffixes :: "string list" where
  "static_suffixes = [''.pdf'', ''.jpg'', ''.png'', ''.gif'', ''.zip'', ''.css'', ''.js'']"

definition link_accepted :: "string \<Rightarrow> url_parts \<Rightarrow> string \<Rightarrow> bool" where
  "link_accepted base_domain parsed_url full_url =
     (netloc parsed_url = base_domain \<and>
      (scheme parsed_url = ''http'' \<or> scheme parsed_url = ''https'') \<and>
      \<not> (\<exists>ext \<in> set static_suffixes. suffix ext full_url))"

fun same_domain_links :: "stdlib \<Rightarrow> string \<Rightarrow> string \<Rightarrow> string list \<Rightarrow> string list \<Rightarrow> py_error + string list" where
  "same_domain_links lib base_domain base_url [] acc = Inr acc"
| "same_domain_links lib base_domain base_url (href # hrefs) acc =
     (case urljoin lib base_url href of
        Inl e \<Rightarrow> Inl e
      | Inr full_url \<Rightarrow>
          (case urlparse lib full_url of
             Inl e \<Rightarrow> Inl e
           | Inr parsed_url \<Rightarrow>
               same_domain_links lib base_domain base_url hrefs
                 (if link_accepted base_domain parsed_url full_url
                  then (let clean_url = takeWhile (\<lambda>c. c \<noteq> CHR ''#'') full_url
                        in if clean_url \<noteq> base_url then acc @ [clean_url] else acc)
                  else acc)))"

definition extract_links_ingestion :: "stdlib \<Rightarrow> soup \<Rightarrow> string \<Rightarrow> py_error + string list" where
  "extract_links_ingestion lib sp base_url =
     (case urlparse lib base_url of
        Inl e \<Rightarrow> Inl e
      | Inr base_parsed \<Rightarrow>
          (case same_domain_links lib (netloc base_parsed) base_url (anchors sp) [] of
             Inl e \<Rightarrow> Inl e
           | Inr found \<Rightarrow> Inr (list_of_set lib found)))"

section \<open>Scraping one page\<close>

text \<open>\<open>WebsiteIngestion._extract_main_content\<close>: the first selector that matches wins.\<close>

fun first_selected :: "soup \<Rightarrow> string list \<Rightarrow> string" where
  "first_selected sp [] = []"
| "first_selected sp (selector # selectors) =
     (case select_one sp selector of
        Some element_text \<Rightarrow> element_text
      | None \<Rightarrow> first_selected sp selectors)"

definition content_selectors :: "string list" where
  "content_selectors =
     [''main'', ''article'', ''[role=\"main\"]'', ''.content'', ''.main-content'', ''#content'', ''#main'']"

definition extract_main_content :: "soup \<Rightarrow> string" where
  "extract_main_content sp =
     (let main_content = first_selected sp content_selectors
      in if main_content = [] then (case body sp of Some b \<Rightarrow> b | None \<Rightarrow> [])
         else main_content)"

text \<open>
  \<open>WebsiteIngestion.scrape_page\<close>. Every exception inside it is caught and gives \<open>None\<close>; a
  page with little text is logged and kept, one with no text at all is dropped.
\<close>

definition scrape_page_ingestion :: "stdlib \<Rightarrow> string \<Rightarrow> fetched \<Rightarrow> ingested_page option" where
  "scrape_page_ingestion lib u response =
     (case response of
        Status_error code \<Rightarrow> None
      | Request_error msg \<Rightarrow> None
      | Parsed sp \<Rightarrow>
          (let title_text = (case title_tag sp of Some t \<Rightarrow> strip t | None \<Rightarrow> []);
               raw = extract_main_content sp
           in if (raw = [] \<or> length (strip raw) < 100) \<and> (raw = [] \<or> length (strip raw) = 0)
              then None
              else (case extract_links_ingestion lib sp u of
                      Inl e \<Rightarrow> None
                    | Inr found \<Rightarrow>
                        Some \<lparr>url = u, title = title_text, content = clean_text_ingestion raw,
                              links = found\<rparr>)))"

text \<open>
  \<open>AdvancedWebScraper._extract_content_smart\<close>: the first selector whose stripped text has
  more than 200 characters and more than 50 words wins; otherwise the stripped body.
\<close>

fun first_substantial :: "soup \<Rightarrow> string list \<Rightarrow> string option" where
  "first_substantial sp [] = None"
| "first_substantial sp (selector # selectors) =
     (case select_one sp selector of
        None \<Rightarrow> first_substantial sp selectors
      | Some element_text \<Rightarrow>
          (let stripped = strip element_text
           in if 200 < length stripped \<and> 50 < split_len stripped then Some stripped
              else first_substantial sp selectors))"

definition content_strategies :: "string list list" where
  "content_strategies =
     [[''main'', ''article'', ''[role=\"main\"]''],
      [''.content'', ''.main-content'', ''.post-content'', ''.entry-content'', ''.article-content''],
      [''#content'', ''#main'', ''#post-content'', ''#article-content''],
      [''div'', ''section'']]"

definition extract_content_smart :: "soup \<Rightarrow> string" where
  "extract_content_smart sp =
     (case first_substantial sp (concat content_strategies) of
        Some found \<Rightarrow> found
      | None \<Rightarrow> (case body sp of Some b \<Rightarrow> strip b | None \<Rightarrow> []))"

definition extract_headings :: "soup \<Rightarrow> (string \<times> string list) list" where
  "extract_headings sp =
     map (\<lambda>level. (level, filter (\<lambda>t. t \<noteq> []) (map strip (find_all sp level))))
       [''h1'', ''h2'', ''h3'', ''h4'', ''h5'', ''h6'']"

text \<open>\<open>AdvancedWebScraper.scrape_page\<close>: no test on the text it extracted.\<close>

definition scrape_page :: "string \<Rightarrow> fetched \<Rightarrow> crawled_page option" where
  "scrape_page u response =
     (case response of
        Status_error code \<Rightarrow> None
      | Request_error msg \<Rightarrow> None
      | Parsed sp \<Rightarrow>
          (let cleaned = clean_text_scraper (extract_content_smart sp)
           in Some \<lparr>url = u,
                    title = (case title_tag sp of Some t \<Rightarrow> strip t | None \<Rightarrow> []),
                    content = cleaned,
                    description = (case meta_description sp of Some d \<Rightarrow> d | None \<Rightarrow> []),
                    headings = extract_headings sp,
                    word_count = split_len cleaned\<rparr>))"

section \<open>The crawl loops\<close>

text \<open>
  The variables of a crawl loop: the frontier, the visited set and the pages collected so
  far. The state also records the two effects of the loop, the requests sent (the web may
  answer by them) and the frontier entries handed to the page scraper, in order.
\<close>

record ('u, 'p) crawl_state =
  urls_to_visit :: "'u list"
  visited_urls :: "string set"
  pages :: "'p list"
  requests :: "string list"
  scraped :: "'u list"

text \<open>One pass through the body of the \<open>while\<close> loop of \<open>WebsiteIngestion.scrape_website\<close>.\<close>

definition scrape_iteration ::
  "stdlib \<Rightarrow> web \<Rightarrow> int \<Rightarrow> (string, ingested_page) crawl_state \<Rightarrow> (string, ingested_page) crawl_state" where
  "scrape_iteration lib w max_pages st =
     (case urls_to_visit st of
        [] \<Rightarrow> st
      | u # rest \<Rightarrow>
          if u \<in> visited_urls st then st\<lparr>urls_to_visit := rest\<rparr>
          else
            (let st1 = st\<lparr>urls_to_visit := rest, visited_urls := insert u (visited_urls st),
                           requests := requests st @ [u], scraped := scraped st @ [u]\<rparr>
             in case scrape_page_ingestion lib u (w (requests st) u) of
                  None \<Rightarrow> st1
                | Some page_data \<Rightarrow>
                    (let st2 = st1\<lparr>pages := pages st1 @ [page_data]\<rparr>
                     in if int (length (pages st2)) < max_pages
                        then st2\<lparr>urls_to_visit := urls_to_visit st2 @ links page_data\<rparr>
                        else st2)))"

definition scrape_measure :: "int \<Rightarrow> ('u, 'p) crawl_state \<Rightarrow> nat \<times> nat" where
  "scrape_measure max_pages st =
     (nat (max_pages - int (length (pages st))), length (urls_to_visit st))"

function scrape_loop ::
  "stdlib \<Rightarrow> web \<Rightarrow> int \<Rightarrow> (string, ingested_page) crawl_state \<Rightarrow> (string, ingested_page) crawl_state" where
  "scrape_loop lib w max_pages st =
     (if urls_to_visit st \<noteq> [] \<and> int (length (pages st)) < max_pages
      then scrape_loop lib w max_pages (scrape_iteration lib w max_pages st)
      else st)"
  by pat_completeness auto
termination
proof (relation "inv_image (less_than <*lex*> less_than)
        (\<lambda>(lib, w, max_pages, st). scrape_measure max_pages st)")
  fix lib :: stdlib and w :: web and max_pages :: int
    and st :: "(string, ingested_page) crawl_state"
  assume "urls_to_visit st \<noteq> [] \<and> int (length (pages st)) < max_pages"
  then obtain u rest where "urls_to_visit st = u # rest" "int (length (pages st)) < max_pages"
    by (cases "urls_to_visit st") auto
  then show "((lib, w, max_pages, scrape_iteration lib w max_pages st), (lib, w, max_pages, st))
      \<in> inv_image (less_than <*lex*> less_than)
          (\<lambda>(lib, w, max_pages, st). scrape_measure max_pages st)"
    by (auto simp: scrape_iteration_def scrape_measure_def Let_def split: option.splits)
qed auto

declare scrape_loop.simps [simp del]

definition scrape_start :: "string \<Rightarrow> (string, ingested_page) crawl_state" where
  "scrape_start base_url =
     \<lparr>urls_to_visit = [base_url], visited_urls = {}, pages = [], requests = [], scraped = []\<rparr>"

definition scrape_website :: "stdlib \<Rightarrow> web \<Rightarrow> string \<Rightarrow> int \<Rightarrow> ingested_page list" where
  "scrape_website lib w base_url max_pages = pages (scrape_loop lib w max_pages (scrape_start base_url))"

text \<open>
  One pass through the body of the \<open>while\<close> loop of \<open>AdvancedWebScraper.crawl_website\<close>. The
  page is requested a second time for its links, and a failure there is logged and ignored.
\<close>

definition crawl_iteration ::
  "stdlib \<Rightarrow> web \<Rightarrow> int \<Rightarrow> bool \<Rightarrow> int \<Rightarrow> (string \<times> int, crawled_page) crawl_state
     \<Rightarrow> (string \<times> int, crawled_page) crawl_state" where
  "crawl_iteration lib w max_depth restr max_pages st =
     (case urls_to_visit st of
        [] \<Rightarrow> st
      | (u, depth) # rest \<Rightarrow>
          if u \<in> visited_urls st \<or> max_depth < depth then st\<lparr>urls_to_visit := rest\<rparr>
          else
            (let st1 = st\<lparr>urls_to_visit := rest, visited_urls := insert u (visited_urls st),
                           requests := requests st @ [u], scraped := scraped st @ [(u, depth)]\<rparr>
             in case scrape_page u (w (requests st) u) of
                  None \<Rightarrow> st1
                | Some page_data \<Rightarrow>
                    (let st2 = st1\<lparr>pages := pages st1 @ [page_data]\<rparr>
                     in if int (length (pages st2)) < max_pages \<and> depth < max_depth
                        then
                          (let st3 = st2\<lparr>requests := requests st2 @ [u]\<rparr>
                           in case w (requests st2) u of
                                Parsed sp \<Rightarrow>
                                  (case extract_links lib restr sp u of
                                     Inl e \<Rightarrow> st3
                                   | Inr new_links \<Rightarrow>
                                       st3\<lparr>urls_to_visit := urls_to_visit st3 @
                                             map (\<lambda>link. (link, depth + 1))
                                               (filter (\<lambda>link. link \<notin> visited_urls st3) new_links)\<rparr>)
                              | Status_error code \<Rightarrow> st3
                              | Request_error msg \<Rightarrow> st3)
                        else st2)))"

function crawl_loop ::
  "stdlib \<Rightarrow> web \<Rightarrow> int \<Rightarrow> bool \<Rightarrow> int \<Rightarrow> (string \<times> int, crawled_page) crawl_state
     \<Rightarrow> (string \<times> int, crawled_page) crawl_state" where
  "crawl_loop lib w max_depth restr max_pages st =
     (if urls_to_visit st \<noteq> [] \<and> int (length (pages st)) < max_pages
      then crawl_loop lib w max_depth restr max_pages
             (crawl_iteration lib w max_depth restr max_pages st)
      else st)"
  by pat_completeness auto
termination
proof (relation "inv_image (less_than <*lex*> less_than)
        (\<lambda>(lib, w, max_depth, restr, max_pages, st). scrape_measure max_pages st)")
  fix lib :: stdlib and w :: web and max_depth max_pages :: int and restr :: bool
    and st :: "(string \<times> int, crawled_page) crawl_state"
  assume "urls_to_visit st \<noteq> [] \<and> int (length (pages st)) < max_pages"
  then obtain u depth rest where
    "urls_to_visit st = (u, depth) # rest" "int (length (pages st)) < max_pages"
    by (cases "urls_to_visit st") auto
  then show "((lib, w, max_depth, restr, max_pages,
               crawl_iteration lib w max_depth restr max_pages st),
              (lib, w, max_depth, restr, max_pages, st))
      \<in> inv_image (less_than <*lex*> less_than)
          (\<lambda>(lib, w, max_depth, restr, max_pages, st). scrape_measure max_pages st)"
    by (auto simp: crawl_iteration_def scrape_measure_def Let_def
             split: option.splits fetched.splits sum.splits)
qed auto

declare crawl_loop.simps [simp del]

text \<open>
  \<open>crawl_website\<close> starts from the visited set of the scraper object, which it never
  clears, and leaves the set to the next call.
\<close>

definition crawl_start :: "string set \<Rightarrow> string \<Rightarrow> (string \<times> int, crawled_page) crawl_state" where
  "crawl_start seen start_url =
     \<lparr>urls_to_visit = [(start_url, 0)], visited_urls = seen, pages = [], requests = [],
      scraped = []\<rparr>"

definition crawl_website ::
  "stdlib \<Rightarrow> web \<Rightarrow> int \<Rightarrow> bool \<Rightarrow> string set \<Rightarrow> string \<Rightarrow> int
     \<Rightarrow> (string \<times> int, crawled_page) crawl_state" where
  "crawl_website lib w max_depth restr seen start_url max_pages =
     crawl_loop lib w max_depth restr max_pages (crawl_start seen start_url)"

section \<open>The vector store adapter\<close>

text \<open>
  The index library is outside the repository. Of an index the adapter touches the document
  store and the table from index positions to document identifiers; a search of the library
  is a parameter that returns documents or raises.
\<close>

record document =
  page_content :: string
  metadata :: "(string \<times> string) list"

record faiss =
  docstore :: "(string \<times> document) list"
  index_to_docstore_id :: "(nat \<times> string) list"

record vector_store_obj =
  vector_store :: "faiss option"

type_synonym 'r search = "faiss \<Rightarrow> string \<Rightarrow> int \<Rightarrow> py_error + 'r list"

text \<open>\<open>VectorStore.similarity_search\<close> and \<open>VectorStore.similarity_search_with_score\<close>\<close>

definition similarity_search ::
  "document search \<Rightarrow> vector_store_obj \<Rightarrow> string \<Rightarrow> int \<Rightarrow> py_error + document list" where
  "similarity_search lib_search vs query k =
     (case vector_store vs of
        None \<Rightarrow> Inr []
      | Some index \<Rightarrow>
          (case lib_search index query k of
             Inr results \<Rightarrow> Inr results
           | Inl e \<Rightarrow> Inr []))"

definition similarity_search_with_score ::
  "(document \<times> 's) search \<Rightarrow> vector_store_obj \<Rightarrow> string \<Rightarrow> int
     \<Rightarrow> py_error + (document \<times> 's) list" where
  "similarity_search_with_score lib_search vs query k =
     (case vector_store vs of
        None \<Rightarrow> Inr []
      | Some index \<Rightarrow>
          (case lib_search index query k of
             Inr results \<Rightarrow> Inr results
           | Inl e \<Rightarrow> Inr []))"

text \<open>
  What \<open>load_vector_store\<close> finds on disk: whether the two paths exist, and what loading
  the index and unpickling the metadata give.
\<close>

record disk =
  index_exists :: bool
  metadata_exists :: bool
  load_local :: "py_error + faiss"
  unpickle :: "py_error + ((string \<times> document) list \<times> (nat \<times> string) list)"

definition load_vector_store ::
  "disk \<Rightarrow> vector_store_obj \<Rightarrow> py_error + (faiss option \<times> vector_store_obj)" where
  "load_vector_store d vs =
     (if index_exists d \<and> metadata_exists d
      then (case load_local d of
              Inl e \<Rightarrow> Inr (None, vs)
            | Inr index \<Rightarrow>
                (case unpickle d of
                   Inl e \<Rightarrow> Inr (None, vs\<lparr>vector_store := Some index\<rparr>)
                 | Inr (store, ids) \<Rightarrow>
                     (let index' = index\<lparr>docstore := store, index_to_docstore_id := ids\<rparr>
                      in Inr (Some index', vs\<lparr>vector_store := Some index'\<rparr>))))
      else Inr (None, vs))"

section \<open>The chat entry point (\<open>chatbot.py\<close>)\<close>

text \<open>
  The module loads the embeddings and the index when it is imported, inside one \<open>try\<close>; the
  two globals it sets are the state of the chat path.
\<close>

record chatbot_env =
  embeddings_error :: "py_error option"
  faiss_index_exists :: bool
  faiss_load_local :: "py_error + faiss"

record chatbot =
  import_error :: "string option"
  db :: "faiss option"

definition startup :: "chatbot_env \<Rightarrow> chatbot" where
  "startup env =
     (case embeddings_error env of
        Some e \<Rightarrow> \<lparr>import_error = Some (str_error e), db = None\<rparr>
      | None \<Rightarrow>
          if faiss_index_exists env
          then (case faiss_load_local env of
                  Inl e \<Rightarrow> \<lparr>import_error = Some (str_error e), db = None\<rparr>
                | Inr index \<Rightarrow> \<lparr>import_error = None, db = Some index\<rparr>)
          else \<lparr>import_error = None, db = None\<rparr>)"

text \<open>\<open>if _import_error:\<close> holds for a message that is not empty.\<close>

definition reported_error :: "chatbot \<Rightarrow> string option" where
  "reported_error cb =
     (case import_error cb of
        None \<Rightarrow> None
      | Some e \<Rightarrow> if e = [] then None else Some e)"

definition system_error_message :: "string \<Rightarrow> string" where
  "system_error_message e =
     ''System Error: '' @ e @ [newline, newline] @
     ''This is likely a Python 3.14 compatibility issue with numpy. Please see instructions to fix.''"

definition unavailable_message :: string where
  "unavailable_message =
     ''Sorry, the AI engine is currently unavailable (FAISS index '' @ [CHR 0x27] @
     ''faiss_index'' @ [CHR 0x27] @ '' not found).''"

definition not_found_message :: string where
  "not_found_message = ''Sorry, I could not find relevant information.''"

definition get_answer :: "document search \<Rightarrow> chatbot \<Rightarrow> string \<Rightarrow> py_error + string" where
  "get_answer lib_search cb query =
     (case reported_error cb of
        Some e \<Rightarrow> Inr (system_error_message e)
      | None \<Rightarrow>
          (case db cb of
             None \<Rightarrow> Inr unavailable_message
           | Some index \<Rightarrow>
               (case lib_search index query 2 of
                  Inl e \<Rightarrow> Inr (''Error during search: '' @ str_error e)
                | Inr docs \<Rightarrow>
                    (case docs of
                       [] \<Rightarrow> Inr not_found_message
                     | doc # others \<Rightarrow> Inr (page_content doc)))))"

definition get_answer_safe :: "document search \<Rightarrow> chatbot \<Rightarrow> string \<Rightarrow> string" where
  "get_answer_safe lib_search cb query =
     (case get_answer lib_search cb query of
        Inr reply \<Rightarrow> reply
      | Inl e \<Rightarrow> ''An unexpected error occurred: '' @ str_error e)"

text \<open>
  The chat input handler of \<open>app.py\<close>. The input widget gives \<open>None\<close> or the text typed;
  under \<open>if query:\<close> the query and the answer join the transcript, and nothing happens for
  \<open>None\<close> or an empty text.
\<close>

definition handle_query ::
  "document search \<Rightarrow> chatbot \<Rightarrow> (string \<times> string) list \<Rightarrow> string option
     \<Rightarrow> (string \<times> string) list" where
  "handle_query lib_search cb chat_history query =
     (case query of
        None \<Rightarrow> chat_history
      | Some q \<Rightarrow>
          if q \<noteq> []
          then (chat_history @ [(''You'', q)]) @ [(''Bot'', get_answer_safe lib_search cb q)]
          else chat_history)"

section \<open>The answer pipeline (\<open>RAGPipeline\<close>)\<close>

text \<open>
  The chain library is outside the repository: building a chain over an index and calling a
  chain on a question are parameters, and either may raise. A chain returns a dictionary in
  which the pipeline looks up \<open>result\<close> and \<open>source_documents\<close>.
\<close>

record chain_result =
  result :: "string option"
  source_documents :: "document list option"

record 'c chain_library =
  from_chain_type :: "faiss \<Rightarrow> py_error + 'c"
  call_chain :: "'c \<Rightarrow> string \<Rightarrow> py_error + chain_result"

record 'c rag_pipeline =
  pipeline_store :: "vector_store_obj option"
  qa_chain :: "'c option"

record source =
  source_content :: string
  source_url :: string
  source_title :: string

record response =
  answer :: string
  sources :: "source list"
  question :: string
  response_documents :: "document list option"

definition create_qa_chain ::
  "'c chain_library \<Rightarrow> 'c rag_pipeline \<Rightarrow> py_error + ('c \<times> 'c rag_pipeline)" where
  "create_qa_chain lib p =
     (case pipeline_store p of
        None \<Rightarrow> Inl (ValueError ''Vector store not initialized'')
      | Some vs \<Rightarrow>
          (case vector_store vs of
             None \<Rightarrow> Inl (ValueError ''Vector store not initialized'')
           | Some index \<Rightarrow>
               (case from_chain_type lib index of
                  Inl e \<Rightarrow> Inl e
                | Inr c \<Rightarrow> Inr (c, p\<lparr>qa_chain := Some c\<rparr>))))"

definition metadata_get :: "document \<Rightarrow> string \<Rightarrow> string" where
  "metadata_get doc key = (case map_of (metadata doc) key of Some v \<Rightarrow> v | None \<Rightarrow> [])"

definition source_of :: "document \<Rightarrow> source" where
  "source_of doc =
     \<lparr>source_content = take 200 (page_content doc) @ ''...'',
      source_url = metadata_get doc ''url'',
      source_title = metadata_get doc ''title''\<rparr>"

definition format_response :: "chain_result \<Rightarrow> string \<Rightarrow> response" where
  "format_response r q =
     (let docs = (case source_documents r of Some ds \<Rightarrow> ds | None \<Rightarrow> [])
      in \<lparr>answer = (case result r of Some a \<Rightarrow> a | None \<Rightarrow> []),
          sources = map source_of docs,
          question = q,
          response_documents = Some docs\<rparr>)"

definition error_response :: "py_error \<Rightarrow> string \<Rightarrow> response" where
  "error_response e q =
     \<lparr>answer = ''Error processing question: '' @ str_error e,
      sources = [],
      question = q,
      response_documents = None\<rparr>"

text \<open>
  \<open>RAGPipeline.answer_question\<close>. The chain is created before the \<open>try\<close> block is entered,
  so an exception of \<open>create_qa_chain\<close> leaves the function; inside the block every
  exception becomes an error response.
\<close>

definition answer_question ::
  "'c chain_library \<Rightarrow> 'c rag_pipeline \<Rightarrow> string \<Rightarrow> py_error + (response \<times> 'c rag_pipeline)" where
  "answer_question lib p q =
     (case (case qa_chain p of
              None \<Rightarrow> (case create_qa_chain lib p of Inl e \<Rightarrow> Inl e | Inr (c, p') \<Rightarrow> Inr p')
            | Some c \<Rightarrow> Inr p) of
        Inl e \<Rightarrow> Inl e
      | Inr p1 \<Rightarrow>
          (case qa_chain p1 of
             None \<Rightarrow> Inr (error_response (TypeError ''NoneType object is not callable'') q, p1)
           | Some c \<Rightarrow>
               (case call_chain lib c q of
                  Inl e \<Rightarrow> Inr (error_response e q, p1)
                | Inr r \<Rightarrow> Inr (format_response r q, p1))))"

section \<open>Sample inputs\<close>

text \<open>A page of \<open>n\<close> letters, and a page of \<open>n\<close> full stops, which has no sentence.\<close>

definition sample_page :: "nat \<Rightarrow> page" where
  "sample_page n =
     \<lparr>url = ''http://example.com/'', title = ''Example'', content = replicate n (CHR ''a'')\<rparr>"

definition dotted_page :: "nat \<Rightarrow> crawled_page" where
  "dotted_page n =
     \<lparr>url = ''http://example.com/'', title = ''Example'', content = replicate n (CHR ''.''),
      description = [], headings = [], word_count = 0\<rparr>"

text \<open>
  Two searches to stand for the index library: one returns the first \<open>k\<close> stored documents,
  one always raises. A store of two documents, and an empty one.
\<close>

definition stored_search :: "document search" where
  "stored_search index query k = Inr (take (nat k) (map snd (docstore index)))"

definition broken_search :: "document search" where
  "broken_search index query k = Inl (LibraryError ''index is corrupt'')"

definition services_doc :: document where
  "services_doc =
     \<lparr>page_content = ''We offer consulting and training.'',
      metadata = [(''url'', ''http://example.com/services''), (''title'', ''Services'')]\<rparr>"

definition about_doc :: document where
  "about_doc =
     \<lparr>page_content = ''Founded in 2001.'',
      metadata = [(''url'', ''http://example.com/about''), (''title'', ''About'')]\<rparr>"

definition small_index :: faiss where
  "small_index =
     \<lparr>docstore = [(''d0'', services_doc), (''d1'', about_doc)],
      index_to_docstore_id = [(0, ''d0''), (1, ''d1'')]\<rparr>"

definition empty_index :: faiss where
  "empty_index = \<lparr>docstore = [], index_to_docstore_id = []\<rparr>"

text \<open>A disk without an index, and one whose index fails to load.\<close>

definition no_index_disk :: disk where
  "no_index_disk =
     \<lparr>index_exists = False, metadata_exists = False,
      load_local = Inl (LibraryError ''no such file''),
      unpickle = Inl (LibraryError ''no such file'')\<rparr>"

definition corrupt_disk :: disk where
  "corrupt_disk =
     \<lparr>index_exists = True, metadata_exists = True,
      load_local = Inl (LibraryError ''bad index file''),
      unpickle = Inr ([], [])\<rparr>"

definition no_index_env :: chatbot_env where
  "no_index_env =
     \<lparr>embeddings_error = None, faiss_index_exists = False,
      faiss_load_local = Inl (LibraryError ''no such file'')\<rparr>"

definition failing_env :: chatbot_env where
  "failing_env =
     \<lparr>embeddings_error = Some (LibraryError ''numpy is not available''),
      faiss_index_exists = False,
      faiss_load_local = Inl (LibraryError ''no such file'')\<rparr>"

definition loaded_chatbot :: chatbot where
  "loaded_chatbot = \<lparr>import_error = None, db = Some small_index\<rparr>"

definition empty_chatbot :: chatbot where
  "empty_chatbot = \<lparr>import_error = None, db = Some empty_index\<rparr>"

text \<open>
  A stand-in for \<open>urllib.parse\<close> on plain absolute URLs: the scheme is the text before the
  first colon when it starts with a letter and is made of scheme characters, the network location the text between
  \<open>//\<close> and the next of \<open>/\<close>, \<open>?\<close> and \<open>#\<close>, an unmatched bracket in it raises, and a link that
  is absolute is its own resolution. A set is listed in the order of first insertion.
\<close>

definition scheme_char :: "char \<Rightarrow> bool" where
  "scheme_char c = (let n = (of_char c :: nat) in
     (48 \<le> n \<and> n \<le> 57) \<or> (65 \<le> n \<and> n \<le> 90) \<or> (97 \<le> n \<and> n \<le> 122) \<or>
     c \<in> set ''+-.'')"

definition ascii_letter :: "char \<Rightarrow> bool" where
  "ascii_letter c = (let n = (of_char c :: nat) in
     (65 \<le> n \<and> n \<le> 90) \<or> (97 \<le> n \<and> n \<le> 122))"

definition plain_urlparse :: "string \<Rightarrow> py_error + url_parts" where
  "plain_urlparse u =
     (let pre = takeWhile (\<lambda>c. c \<noteq> CHR '':'') u;
          has_scheme = (pre \<noteq> u \<and> list_all scheme_char pre \<and>
                        (case pre of [] \<Rightarrow> False | c # cs \<Rightarrow> ascii_letter c));
          rest = (if has_scheme then drop (length pre + 1) u else u);
          loc = (if take 2 rest = ''//''
                 then takeWhile (\<lambda>c. c \<notin> set ''/?#'') (drop 2 rest) else [])
      in if (CHR ''['' \<in> set loc) \<noteq> (CHR '']'' \<in> set loc)
         then Inl (ValueError ''Invalid IPv6 URL'')
         else Inr \<lparr>scheme = (if has_scheme then lower pre else []), netloc = loc\<rparr>)"

definition sample_lib :: stdlib where
  "sample_lib =
     \<lparr>urlparse = plain_urlparse, urljoin = (\<lambda>base href. Inr href), list_of_set = remdups\<rparr>"

text \<open>
  A document with a title, a body text and anchors, and no element that a selector or a
  heading level matches. A site of three pages linked in a chain, and a site whose one page
  has no text.
\<close>

definition plain_soup :: "string option \<Rightarrow> string list \<Rightarrow> soup" where
  "plain_soup body_text hrefs =
     \<lparr>title_tag = Some ''Example'', meta_description = None, select_one = (\<lambda>selector. None),
      body = body_text, anchors = hrefs, find_all = (\<lambda>level. [])\<rparr>"

definition chain_web :: web where
  "chain_web log u =
     (if u = ''http://example.com/a''
      then Parsed (plain_soup (Some ''Page one.'') [''http://example.com/b''])
      else if u = ''http://example.com/b''
      then Parsed (plain_soup (Some ''Page two.'') [''http://example.com/c'', ''http://example.com/a''])
      else if u = ''http://example.com/c''
      then Parsed (plain_soup (Some ''Page three.'') [])
      else Status_error 404)"

definition blank_web :: web where
  "blank_web log u = Parsed (plain_soup None [])"



text \<open>
  What holds of the state of \<open>scrape_website\<close> whenever the loop test is evaluated: no URL
  was scraped twice, every scraped URL is in the visited set and was requested once, the
  pages are at most \<open>max_pages\<close>, their URLs are scraped URLs without repetition, and every
  page is what \<open>scrape_page\<close> made of a parsed response.
\<close>

definition scrape_inv ::
  "stdlib \<Rightarrow> web \<Rightarrow> int \<Rightarrow> (string, ingested_page) crawl_state \<Rightarrow> bool" where
  "scrape_inv lib w max_pages st =
     (distinct (scraped st) \<and> set (scraped st) \<subseteq> visited_urls st \<and>
      requests st = scraped st \<and>
      int (length (pages st)) \<le> max 0 max_pages \<and>
      distinct (map url (pages st)) \<and> set (map url (pages st)) \<subseteq> set (scraped st) \<and>
      list_all (\<lambda>p. \<exists>log sp. w log (url p) = Parsed sp \<and>
           scrape_page_ingestion lib (url p) (Parsed sp) = Some p) (pages st))"

text \<open>
  The same for \<open>crawl_website\<close>, started with the visited set \<open>seen\<close>: no URL was scraped
  twice or was in \<open>seen\<close>, the depths in the frontier are not negative and the depths scraped
  are at most \<open>max_depth\<close>.
\<close>

definition crawl_inv ::
  "web \<Rightarrow> int \<Rightarrow> string set \<Rightarrow> int \<Rightarrow> (string \<times> int, crawled_page) crawl_state \<Rightarrow> bool" where
  "crawl_inv w max_depth seen max_pages st =
     (distinct (map fst (scraped st)) \<and> set (map fst (scraped st)) \<subseteq> visited_urls st \<and>
      seen \<subseteq> visited_urls st \<and> set (map fst (scraped st)) \<inter> seen = {} \<and>
      list_all (\<lambda>entry. 0 \<le> snd entry) (urls_to_visit st) \<and>
      list_all (\<lambda>entry. 0 \<le> snd entry \<and> snd entry \<le> max_depth) (scraped st) \<and>
      int (length (pages st)) \<le> max 0 max_pages \<and>
      distinct (map url (pages st)) \<and> set (map url (pages st)) \<subseteq> set (map fst (scraped st)) \<and>
      list_all (\<lambda>p. \<exists>log sp. w log (url p) = Parsed sp \<and>
           scrape_page (url p) (Parsed sp) = Some p) (pages st))"

text \<open>A site whose one page has a text of two letters.\<close>

definition tiny_web :: web where
  "tiny_web log u = Parsed (plain_soup (Some ''Hi'') [])"

section \<open>Fixed-size chunking: what the chunks are\<close>

lemma concat_take_drop:
  "concat (map (\<lambda>k. take s (drop (k * s) ys)) [0..<m]) = take (m * s) ys"
proof (induction m)
  case 0
  show ?case by simp
next
  case (Suc m)
  have "take (m * s) ys @ take s (drop (m * s) ys) = take (m * s + s) ys"
    by (simp add: take_add)
  with Suc show ?case by (simp add: add.commute)
qed

lemma py_slice_window:
  "0 \<le> i \<Longrightarrow> 0 \<le> c \<Longrightarrow> py_slice xs i (i + c) = take (nat c) (drop (nat i) xs)"
  unfolding py_slice_def clip_index_def Let_def
  by (auto simp: min_def nat_add_distrib)

lemma range_len_covers:
  assumes "0 < s" "0 \<le> n"
  shows "n \<le> int (range_len 0 n s) * s"
proof (cases "n = 0")
  case True
  then show ?thesis by (simp add: range_len_def)
next
  case False
  with assms have pos: "0 < n" by simp
  have "(n - 1) mod s < s" using assms by simp
  moreover have "(n - 1) div s * s + (n - 1) mod s = n - 1" by simp
  ultimately have "n \<le> (n - 1) div s * s + s" by linarith
  moreover have "0 \<le> (n - 1) div s" using assms pos by (simp add: pos_imp_zdiv_nonneg_iff)
  ultimately show ?thesis using assms pos
    by (simp add: range_len_def algebra_simps)
qed

lemma windows_eq:
  assumes "overlap < chunk_size" "0 \<le> overlap"
  shows "windows cont chunk_size overlap =
     map (\<lambda>k. take (nat chunk_size) (drop (k * nat (chunk_size - overlap)) cont))
       [0..<range_len 0 (int (length cont)) (chunk_size - overlap)]"
  using assms
  by (simp add: windows_def py_range_def py_slice_window nat_mult_distrib comp_def)

lemma foldl_chunk_step_texts:
  "map chunk_text (foldl (chunk_step p cs ov) chunks idx) =
     map chunk_text chunks @ filter substantial (map (\<lambda>i. py_slice (content p) i (i + cs)) idx)"
  by (induction idx arbitrary: chunks) (simp_all add: chunk_step_def Let_def)

lemma chunk_pages_texts:
  assumes "cs \<noteq> ov"
  shows "\<exists>out. chunk_pages pgs cs ov chunks = Inr out \<and>
           map chunk_text out = map chunk_text chunks @
             concat (map (\<lambda>p. filter substantial (windows (content p) cs ov)) pgs)"
  using assms
proof (induction pgs arbitrary: chunks)
  case Nil
  show ?case by simp
next
  case (Cons p ps)
  obtain idx where r: "py_range 0 (int (length (content p))) (cs - ov) = Inr idx"
    using Cons.prems by (simp add: py_range_def)
  from Cons.IH [OF Cons.prems, of "foldl (chunk_step p cs ov) chunks idx"]
  show ?case using r by (simp add: foldl_chunk_step_texts windows_def)
qed

lemma windows_length:
  assumes "overlap < chunk_size" "0 \<le> overlap" "w \<in> set (windows cont chunk_size overlap)"
  shows "int (length w) \<le> chunk_size"
  using assms by (auto simp: windows_eq)

lemma remove_overlap_windows:
  assumes "overlap < chunk_size" "0 \<le> overlap"
  shows "remove_overlap overlap (windows cont chunk_size overlap) = cont"
proof -
  define s where "s = nat (chunk_size - overlap)"
  define v where "v = nat overlap"
  define m where "m = range_len 0 (int (length cont)) (chunk_size - overlap)"
  have cs: "nat chunk_size = v + s"
    using assms by (simp add: s_def v_def)
  have cover: "length cont \<le> m * s"
  proof -
    have "int (length cont) \<le> int m * (chunk_size - overlap)"
      unfolding m_def using assms by (intro range_len_covers) simp_all
    also have "\<dots> = int (m * s)" using assms by (simp add: s_def)
    finally show ?thesis by (simp only: of_nat_le_iff)
  qed
  have w: "windows cont chunk_size overlap = map (\<lambda>k. take (v + s) (drop (k * s) cont)) [0..<m]"
    using windows_eq [OF assms, of cont] by (simp add: cs s_def m_def)
  show ?thesis
  proof (cases m)
    case 0
    with cover have "cont = []" by simp
    with 0 w show ?thesis by (simp add: remove_overlap_def)
  next
    case (Suc m')
    have pt: "drop v (take (v + s) (drop (k * s) cont)) = take s (drop (k * s) (drop v cont))" for k
      by (simp add: drop_take add.commute)
    have tl: "map (drop v) (map (\<lambda>k. take (v + s) (drop (k * s) cont)) [1..<m])
            = map (\<lambda>k. take s (drop (k * s) (drop v cont))) [1..<m]"
      by (simp only: map_map comp_def pt)
    have split: "[0..<m] = 0 # [1..<m]" using Suc by (simp add: upt_rec)
    have "remove_overlap overlap (windows cont chunk_size overlap)
        = take (v + s) (drop (0 * s) cont) @
          concat (map (drop v) (map (\<lambda>k. take (v + s) (drop (k * s) cont)) [1..<m]))"
      unfolding w split by (simp add: remove_overlap_def v_def)
    also have "\<dots> = take (v + s) cont @
          concat (map (\<lambda>k. take s (drop (k * s) (drop v cont))) [1..<m])"
      by (simp only: tl) simp
    also have "take (v + s) cont = take v cont @ take s (drop (0 * s) (drop v cont))"
      by (simp add: take_add)
    also have "(take v cont @ take s (drop (0 * s) (drop v cont))) @
                 concat (map (\<lambda>k. take s (drop (k * s) (drop v cont))) [1..<m])
             = take v cont @ concat (map (\<lambda>k. take s (drop (k * s) (drop v cont))) [0..<m])"
      unfolding split by simp
    also have "\<dots> = take v cont @ take (m * s) (drop v cont)"
      by (simp only: concat_take_drop)
    also have "\<dots> = cont" using cover by simp
    finally show ?thesis .
  qed
qed

lemma foldl_fallback_step_texts:
  "map chunk_text (foldl (fallback_step p cs ov) chunks idx) =
     map chunk_text chunks @ filter substantial (map (\<lambda>i. py_slice (content p) i (i + cs)) idx)"
  by (induction idx arbitrary: chunks) (simp_all add: fallback_step_def Let_def)

lemma structure_pages_texts:
  assumes "cs \<noteq> ov" "\<forall>p \<in> set pgs. chunk_by_headings (content p) (headings p) = []"
  shows "\<exists>out. structure_pages pgs cs ov chunks = Inr out \<and>
           map chunk_text out = map chunk_text chunks @
             concat (map (\<lambda>p. filter substantial (windows (content p) cs ov)) pgs)"
  using assms
proof (induction pgs arbitrary: chunks)
  case Nil
  show ?case by simp
next
  case (Cons p ps)
  obtain idx where r: "py_range 0 (int (length (content p))) (cs - ov) = Inr idx"
    using Cons.prems by (simp add: py_range_def)
  have e: "chunk_by_headings (content p) (headings p) = []" using Cons.prems by simp
  have "\<forall>p \<in> set ps. chunk_by_headings (content p) (headings p) = []" using Cons.prems by simp
  from Cons.IH [OF Cons.prems(1) this, of "foldl (fallback_step p cs ov) chunks idx"]
  show ?case using r e by (simp add: foldl_fallback_step_texts windows_def)
qed

lemma substantial_windows_length:
  assumes "overlap < chunk_size" "0 \<le> overlap"
  shows "\<forall>w \<in> set (concat (map (\<lambda>p. filter substantial (windows (content p) chunk_size overlap)) pgs)).
           int (length w) \<le> chunk_size"
  using windows_length [OF assms] by auto

text \<open>
  Claim C1, as amended. For \<open>chunk_size > overlap \<ge> 0\<close> the fixed-size chunker returns, and
  every chunk has at most \<open>chunk_size\<close> characters. The texts of the chunks are the windows
  \<open>content[i:i + chunk_size]\<close> at the multiples of the stride, in order, without the windows
  whose stripped text has 50 characters or fewer. The windows themselves give the page text
  back when the overlap is removed, and so do the chunks of a page none of whose windows is
  discarded. The fallback of \<open>chunk_content_by_structure\<close>, taken for a page without a
  sentence, produces the same windows.
\<close>

theorem fixed_size_chunks:
  fixes pgs :: "'a page_scheme list" and cpgs :: "crawled_page list"
  assumes "overlap < chunk_size" and "0 \<le> overlap"
  shows "(\<exists>chunks. chunk_content pgs chunk_size overlap = Inr chunks \<and>
            (\<forall>c \<in> set chunks. int (length (chunk_text c)) \<le> chunk_size) \<and>
            map chunk_text chunks =
              concat (map (\<lambda>p. filter substantial (windows (content p) chunk_size overlap)) pgs)) \<and>
         (\<forall>p \<in> set pgs. remove_overlap overlap (windows (content p) chunk_size overlap) = content p) \<and>
         ((\<forall>w \<in> set (windows (content p) chunk_size overlap). substantial w) \<longrightarrow>
           reassemble overlap (chunk_content [p] chunk_size overlap) = Inr (content p)) \<and>
         ((\<forall>p \<in> set cpgs. chunk_by_headings (content p) (headings p) = []) \<longrightarrow>
           (\<exists>chunks. chunk_content_by_structure cpgs chunk_size overlap = Inr chunks \<and>
              (\<forall>c \<in> set chunks. int (length (chunk_text c)) \<le> chunk_size) \<and>
              map chunk_text chunks =
                concat (map (\<lambda>p. filter substantial (windows (content p) chunk_size overlap)) cpgs)))"
proof -
  have ne: "chunk_size \<noteq> overlap" using assms by simp
  have A: "\<exists>chunks. chunk_content pgs chunk_size overlap = Inr chunks \<and>
            (\<forall>c \<in> set chunks. int (length (chunk_text c)) \<le> chunk_size) \<and>
            map chunk_text chunks =
              concat (map (\<lambda>p. filter substantial (windows (content p) chunk_size overlap)) pgs)"
  proof -
    obtain out where o: "chunk_pages pgs chunk_size overlap [] = Inr out"
      "map chunk_text out =
         concat (map (\<lambda>p. filter substantial (windows (content p) chunk_size overlap)) pgs)"
      using chunk_pages_texts [OF ne, of pgs "[]"] by auto
    have "\<forall>w \<in> set (map chunk_text out). int (length w) \<le> chunk_size"
      unfolding o(2) by (rule substantial_windows_length [OF assms])
    then have "\<forall>c \<in> set out. int (length (chunk_text c)) \<le> chunk_size" by simp
    with o show ?thesis by (auto simp: chunk_content_def)
  qed
  have B: "\<forall>p \<in> set pgs. remove_overlap overlap (windows (content p) chunk_size overlap) = content p"
    by (simp add: remove_overlap_windows [OF assms])
  have C: "(\<forall>w \<in> set (windows (content p) chunk_size overlap). substantial w) \<longrightarrow>
           reassemble overlap (chunk_content [p] chunk_size overlap) = Inr (content p)"
  proof
    assume all: "\<forall>w \<in> set (windows (content p) chunk_size overlap). substantial w"
    obtain out where o: "chunk_pages [p] chunk_size overlap [] = Inr out"
      "map chunk_text out =
         concat (map (\<lambda>p. filter substantial (windows (content p) chunk_size overlap)) [p])"
      using chunk_pages_texts [OF ne, of "[p]" "[]"] by auto
    have "filter substantial (windows (content p) chunk_size overlap)
            = windows (content p) chunk_size overlap"
      using all by simp
    with o(2) have "map chunk_text out = windows (content p) chunk_size overlap" by simp
    with o(1) show "reassemble overlap (chunk_content [p] chunk_size overlap) = Inr (content p)"
      by (simp add: reassemble_def chunk_content_def remove_overlap_windows [OF assms])
  qed
  have D: "(\<forall>p \<in> set cpgs. chunk_by_headings (content p) (headings p) = []) \<longrightarrow>
           (\<exists>chunks. chunk_content_by_structure cpgs chunk_size overlap = Inr chunks \<and>
              (\<forall>c \<in> set chunks. int (length (chunk_text c)) \<le> chunk_size) \<and>
              map chunk_text chunks =
                concat (map (\<lambda>p. filter substantial (windows (content p) chunk_size overlap)) cpgs))"
  proof
    assume h: "\<forall>p \<in> set cpgs. chunk_by_headings (content p) (headings p) = []"
    obtain out where o: "structure_pages cpgs chunk_size overlap [] = Inr out"
      "map chunk_text out =
         concat (map (\<lambda>p. filter substantial (windows (content p) chunk_size overlap)) cpgs)"
      using structure_pages_texts [OF ne h, of "[]"] by auto
    have "\<forall>w \<in> set (map chunk_text out). int (length w) \<le> chunk_size"
      unfolding o(2) by (rule substantial_windows_length [OF assms])
    then have "\<forall>c \<in> set out. int (length (chunk_text c)) \<le> chunk_size" by simp
    with o show "\<exists>chunks. chunk_content_by_structure cpgs chunk_size overlap = Inr chunks \<and>
              (\<forall>c \<in> set chunks. int (length (chunk_text c)) \<le> chunk_size) \<and>
              map chunk_text chunks =
                concat (map (\<lambda>p. filter substantial (windows (content p) chunk_size overlap)) cpgs)"
      by (auto simp: chunk_content_by_structure_def)
  qed
  from A B C D show ?thesis by (intro conjI)
qed

text \<open>
  Claim C1 as stated fails: of a page of 120 letters cut with size 100 and overlap 20 the
  second window, 40 letters long, is discarded, and the chunks give back 100 letters only.
\<close>

theorem chunks_lose_text: 
  "(20::int) < 100 \<and> (0::int) \<le> 20 \<and>
   reassemble 20 (chunk_content [sample_page 120] 100 20) \<noteq> Inr (content (sample_page 120))"
  by code_simp

text \<open>The amended claim at a page of 110 letters, and at one of 110 full stops.\<close>

theorem fixed_size_chunks_witness:
  "(5::int) < 60 \<and> (0::int) \<le> 5 \<and>
   list_all substantial (windows (content (sample_page 110)) 60 5) \<and>
   remove_overlap 5 (windows (content (sample_page 110)) 60 5) = content (sample_page 110) \<and>
   reassemble 5 (chunk_content [sample_page 110] 60 5) = Inr (content (sample_page 110)) \<and>
   chunk_by_headings (content (dotted_page 110)) (headings (dotted_page 110)) = [] \<and>
   (\<exists>chunks. chunk_content_by_structure [dotted_page 110] 60 5 = Inr chunks \<and>
      map chunk_text chunks = windows (content (dotted_page 110)) 60 5)"
proof -
  have a: "(5::int) < 60" and b: "(0::int) \<le> 5" by simp_all
  have c: "\<forall>w \<in> set (windows (content (sample_page 110)) 60 5). substantial w" by code_simp
  have d: "\<forall>p \<in> set [dotted_page 110]. chunk_by_headings (content p) (headings p) = []"
    by code_simp
  have e: "concat (map (\<lambda>p. filter substantial (windows (content p) 60 5)) [dotted_page 110])
             = windows (content (dotted_page 110)) 60 5"
    by code_simp
  note t = fixed_size_chunks [OF a b, where pgs = "[sample_page 110]" and p = "sample_page 110"
      and cpgs = "[dotted_page 110]"]
  from t have r: "remove_overlap 5 (windows (content (sample_page 110)) 60 5) = content (sample_page 110)"
    by simp
  from t c have s: "reassemble 5 (chunk_content [sample_page 110] 60 5) = Inr (content (sample_page 110))"
    by blast
  from t d e have f: "\<exists>chunks. chunk_content_by_structure [dotted_page 110] 60 5 = Inr chunks \<and>
      map chunk_text chunks = windows (content (dotted_page 110)) 60 5"
    by force
  from a b c d r s f show ?thesis by (simp add: list_all_iff)
qed

section \<open>Fixed-size chunking outside the stride precondition\<close>

lemma chunk_pages_negative_stride:
  "chunk_size < overlap \<Longrightarrow> chunk_pages pgs chunk_size overlap chunks = Inr chunks"
  by (induction pgs arbitrary: chunks) (simp_all add: py_range_def range_len_def)

text \<open>
  Claim C9. With \<open>chunk_size = overlap\<close> the range has a step of zero and \<open>chunk_content\<close>
  raises \<open>ValueError\<close> as soon as there is a page, whatever its content, a page with content
  in particular; the fallback of \<open>chunk_content_by_structure\<close> does the same on a first page
  without a sentence. With \<open>chunk_size < overlap\<close> the range is empty for every page and no
  chunk is produced.
\<close>

theorem chunker_outside_stride:
  fixes pgs :: "'a page_scheme list" and cpgs :: "crawled_page list"
  shows "(p \<in> set pgs \<longrightarrow>
            chunk_content pgs c c = Inl (ValueError ''range() arg 3 must not be zero'')) \<and>
         (chunk_size < overlap \<longrightarrow> chunk_content pgs chunk_size overlap = Inr []) \<and>
         (chunk_by_headings (content q) (headings q) = [] \<longrightarrow>
            chunk_content_by_structure (q # cpgs) c c =
              Inl (ValueError ''range() arg 3 must not be zero''))"
proof (intro conjI impI)
  assume "p \<in> set pgs"
  then obtain p' ps where "pgs = p' # ps" by (cases pgs) auto
  then show "chunk_content pgs c c = Inl (ValueError ''range() arg 3 must not be zero'')"
    by (simp add: chunk_content_def py_range_def)
next
  assume "chunk_size < overlap"
  then show "chunk_content pgs chunk_size overlap = Inr []"
    by (simp add: chunk_content_def chunk_pages_negative_stride)
next
  assume "chunk_by_headings (content q) (headings q) = []"
  then show "chunk_content_by_structure (q # cpgs) c c =
      Inl (ValueError ''range() arg 3 must not be zero'')"
    by (simp add: chunk_content_by_structure_def py_range_def)
qed

text \<open>Claim C9 at a page of 120 letters, with sizes 100 and 100, then 50 and 100.\<close>

theorem chunker_outside_stride_witness:
  "sample_page 120 \<in> set [sample_page 120] \<and> content (sample_page 120) \<noteq> [] \<and>
   chunk_content [sample_page 120] 100 100 = Inl (ValueError ''range() arg 3 must not be zero'') \<and>
   (50::int) < 100 \<and> chunk_content [sample_page 120] 50 100 = Inr [] \<and>
   chunk_by_headings (content (dotted_page 110)) (headings (dotted_page 110)) = [] \<and>
   chunk_content_by_structure [dotted_page 110] 100 100 =
     Inl (ValueError ''range() arg 3 must not be zero'')"
proof -
  have a: "sample_page 120 \<in> set [sample_page 120]" by simp
  have b: "content (sample_page 120) \<noteq> []" by (simp add: sample_page_def)
  have c: "(50::int) < 100" by simp
  have d: "chunk_by_headings (content (dotted_page 110)) (headings (dotted_page 110)) = []"
    by code_simp
  note t = chunker_outside_stride [where p = "sample_page 120" and pgs = "[sample_page 120]"
      and c = 100 and chunk_size = 50 and overlap = 100 and q = "dotted_page 110" and cpgs = "[]"]
  from t a b c d show ?thesis by blast
qed


section \<open>The semantic chunker and the headings\<close>

lemma semantic_step_headings: "semantic_step (p\<lparr>headings := h\<rparr>) = semantic_step p"
  by (intro ext) (simp add: semantic_step_def)

lemma fallback_step_headings:
  "fallback_step (p\<lparr>headings := h\<rparr>) cs ov = fallback_step p cs ov"
  by (intro ext) (simp add: fallback_step_def Let_def)

lemma structure_pages_headings:
  "structure_pages (map (\<lambda>p. p\<lparr>headings := h p\<rparr>) pgs) cs ov chunks =
   structure_pages pgs cs ov chunks"
proof (induction pgs arbitrary: chunks)
  case Nil
  show ?case by simp
next
  case (Cons p ps)
  show ?case
    by (simp add: Cons.IH semantic_step_headings fallback_step_headings chunk_by_headings_def
        Let_def split: sum.splits)
qed

text \<open>
  Claim C7. The chunks \<open>_chunk_by_headings\<close> makes of a content are the same under any two
  heading structures: they are the sentences of the content, split at the terminators and
  accumulated. So \<open>chunk_content_by_structure\<close> gives the same chunks when the headings of
  its pages are replaced.
\<close>

theorem semantic_chunks_ignore_headings:
  "chunk_by_headings cont h1 = chunk_by_headings cont h2 \<and>
   chunk_by_headings cont h1 = accumulate (re_split_terminators cont) [] [] \<and>
   chunk_content_by_structure (map (\<lambda>p. p\<lparr>headings := h p\<rparr>) pgs) chunk_size overlap =
     chunk_content_by_structure pgs chunk_size overlap"
  by (simp add: chunk_by_headings_def chunk_content_by_structure_def structure_pages_headings)


section \<open>Searching and loading the vector store\<close>

text \<open>
  Claim C6. \<open>similarity_search\<close> and \<open>similarity_search_with_score\<close> return in every case,
  and return the empty list on a store that is not initialized, when the call of the
  library raises, and on an index without documents (the library returning stored documents
  only).
\<close>

theorem search_without_documents:
  "(vector_store vs = None \<longrightarrow>
      similarity_search ls vs q k = Inr [] \<and> similarity_search_with_score lss vs q k = Inr []) \<and>
   (vector_store vs = Some index \<and> ls index q k = Inl e \<longrightarrow>
      similarity_search ls vs q k = Inr []) \<and>
   (vector_store vs = Some index \<and> lss index q k = Inl e \<longrightarrow>
      similarity_search_with_score lss vs q k = Inr []) \<and>
   (vector_store vs = Some index \<and> docstore index = [] \<and>
    (\<forall>ds. ls index q k = Inr ds \<longrightarrow> set ds \<subseteq> snd ` set (docstore index)) \<longrightarrow>
      similarity_search ls vs q k = Inr []) \<and>
   (vector_store vs = Some index \<and> docstore index = [] \<and>
    (\<forall>ds. lss index q k = Inr ds \<longrightarrow> fst ` set ds \<subseteq> snd ` set (docstore index)) \<longrightarrow>
      similarity_search_with_score lss vs q k = Inr []) \<and>
   (\<exists>found. similarity_search ls vs q k = Inr found) \<and>
   (\<exists>found. similarity_search_with_score lss vs q k = Inr found)"
proof (intro conjI impI)
  show "\<exists>found. similarity_search ls vs q k = Inr found"
    by (simp add: similarity_search_def split: option.splits sum.splits)
  show "\<exists>found. similarity_search_with_score lss vs q k = Inr found"
    by (simp add: similarity_search_with_score_def split: option.splits sum.splits)
next
  assume a: "vector_store vs = Some index \<and> docstore index = [] \<and>
    (\<forall>ds. ls index q k = Inr ds \<longrightarrow> set ds \<subseteq> snd ` set (docstore index))"
  show "similarity_search ls vs q k = Inr []"
  proof (cases "ls index q k")
    case (Inl e)
    with a show ?thesis by (simp add: similarity_search_def)
  next
    case (Inr ds)
    with a have "ds = []" by auto
    with a Inr show ?thesis by (simp add: similarity_search_def)
  qed
next
  assume a: "vector_store vs = Some index \<and> docstore index = [] \<and>
    (\<forall>ds. lss index q k = Inr ds \<longrightarrow> fst ` set ds \<subseteq> snd ` set (docstore index))"
  show "similarity_search_with_score lss vs q k = Inr []"
  proof (cases "lss index q k")
    case (Inl e)
    with a show ?thesis by (simp add: similarity_search_with_score_def)
  next
    case (Inr ds)
    with a have "ds = []" by auto
    with a Inr show ?thesis by (simp add: similarity_search_with_score_def)
  qed
qed (simp_all add: similarity_search_def similarity_search_with_score_def)

text \<open>Claim C6 at a store without index, a failing library and an empty index.\<close>

theorem search_without_documents_witness:
  "vector_store \<lparr>vector_store = None\<rparr> = None \<and>
   similarity_search stored_search \<lparr>vector_store = None\<rparr> ''services'' 4 = Inr [] \<and>
   broken_search small_index ''services'' 4 = Inl (LibraryError ''index is corrupt'') \<and>
   similarity_search broken_search \<lparr>vector_store = Some small_index\<rparr> ''services'' 4 = Inr [] \<and>
   docstore empty_index = [] \<and>
   similarity_search stored_search \<lparr>vector_store = Some empty_index\<rparr> ''services'' 4 = Inr []"
proof -
  have a: "vector_store \<lparr>vector_store = None\<rparr> = None" by simp
  have b: "vector_store \<lparr>vector_store = Some small_index\<rparr> = Some small_index \<and>
           broken_search small_index ''services'' 4 = Inl (LibraryError ''index is corrupt'')"
    by (simp add: broken_search_def)
  have c: "vector_store \<lparr>vector_store = Some empty_index\<rparr> = Some empty_index \<and>
           docstore empty_index = [] \<and>
           (\<forall>ds. stored_search empty_index ''services'' 4 = Inr ds \<longrightarrow>
                 set ds \<subseteq> snd ` set (docstore empty_index))"
    by (auto simp: stored_search_def empty_index_def)
  have 1: "similarity_search stored_search \<lparr>vector_store = None\<rparr> ''services'' 4 = Inr []"
    using search_without_documents [where vs = "\<lparr>vector_store = None\<rparr>" and ls = stored_search
        and q = "''services''" and k = 4] a by blast
  have 2: "similarity_search broken_search \<lparr>vector_store = Some small_index\<rparr> ''services'' 4 = Inr []"
    using search_without_documents [where vs = "\<lparr>vector_store = Some small_index\<rparr>"
        and ls = broken_search and index = small_index and q = "''services''" and k = 4
        and e = "LibraryError ''index is corrupt''"] b by blast
  have 3: "similarity_search stored_search \<lparr>vector_store = Some empty_index\<rparr> ''services'' 4 = Inr []"
    using search_without_documents [where vs = "\<lparr>vector_store = Some empty_index\<rparr>"
        and ls = stored_search and index = empty_index and q = "''services''" and k = 4] c
    by blast
  from a b c 1 2 3 show ?thesis by simp
qed

text \<open>
  Claim C8. Without an index on disk \<open>load_vector_store\<close> returns \<open>None\<close> and leaves the
  store as it was, and the chat module starts with no index and answers that the engine is
  unavailable. An exception of the library while loading is caught: \<open>load_vector_store\<close>
  returns \<open>None\<close>, and the chat module keeps the message and answers with it. Neither the
  load nor \<open>get_answer\<close> raises.
\<close>

theorem load_without_index:
  "(\<not> (index_exists d \<and> metadata_exists d) \<longrightarrow> load_vector_store d vs = Inr (None, vs)) \<and>
   (load_local d = Inl e \<or> unpickle d = Inl e \<longrightarrow>
      (\<exists>vs'. load_vector_store d vs = Inr (None, vs'))) \<and>
   (\<exists>loaded. load_vector_store d vs = Inr loaded) \<and>
   (\<not> faiss_index_exists env \<longrightarrow> db (startup env) = None) \<and>
   (embeddings_error env = None \<and> \<not> faiss_index_exists env \<longrightarrow>
      startup env = \<lparr>import_error = None, db = None\<rparr> \<and>
      get_answer ls (startup env) q = Inr unavailable_message \<and>
      get_answer_safe ls (startup env) q = unavailable_message) \<and>
   (embeddings_error env = Some e \<or>
    (embeddings_error env = None \<and> faiss_index_exists env \<and> faiss_load_local env = Inl e) \<longrightarrow>
      startup env = \<lparr>import_error = Some (str_error e), db = None\<rparr> \<and>
      get_answer ls (startup env) q =
        Inr (if str_error e = [] then unavailable_message
             else system_error_message (str_error e))) \<and>
   (\<exists>reply. get_answer ls cb q = Inr reply)"
proof (intro conjI impI)
  show "\<exists>loaded. load_vector_store d vs = Inr loaded"
    by (simp add: load_vector_store_def Let_def split: sum.splits prod.splits)
  show "\<exists>reply. get_answer ls cb q = Inr reply"
    by (simp add: get_answer_def split: option.splits sum.splits list.splits)
next
  assume "load_local d = Inl e \<or> unpickle d = Inl e"
  then show "\<exists>vs'. load_vector_store d vs = Inr (None, vs')"
    by (auto simp: load_vector_store_def split: sum.splits)
next
  assume a: "embeddings_error env = Some e \<or>
    (embeddings_error env = None \<and> faiss_index_exists env \<and> faiss_load_local env = Inl e)"
  then show s: "startup env = \<lparr>import_error = Some (str_error e), db = None\<rparr>"
    by (auto simp: startup_def)
  show "get_answer ls (startup env) q =
        Inr (if str_error e = [] then unavailable_message
             else system_error_message (str_error e))"
    unfolding s by (simp add: get_answer_def reported_error_def)
next
  assume "\<not> (index_exists d \<and> metadata_exists d)"
  then show "load_vector_store d vs = Inr (None, vs)"
    by (auto simp: load_vector_store_def)
next
  assume "\<not> faiss_index_exists env"
  then show "db (startup env) = None"
    by (simp add: startup_def split: option.splits)
next
  assume a: "embeddings_error env = None \<and> \<not> faiss_index_exists env"
  then show s: "startup env = \<lparr>import_error = None, db = None\<rparr>"
    by (simp add: startup_def)
  show "get_answer ls (startup env) q = Inr unavailable_message"
    unfolding s by (simp add: get_answer_def reported_error_def)
  show "get_answer_safe ls (startup env) q = unavailable_message"
    unfolding s by (simp add: get_answer_safe_def get_answer_def reported_error_def)
qed

text \<open>Claim C8 at a disk without index, a disk whose index is corrupt, and two start-ups.\<close>

theorem load_without_index_witness:
  "\<not> (index_exists no_index_disk \<and> metadata_exists no_index_disk) \<and>
   load_vector_store no_index_disk \<lparr>vector_store = None\<rparr> = Inr (None, \<lparr>vector_store = None\<rparr>) \<and>
   load_local corrupt_disk = Inl (LibraryError ''bad index file'') \<and>
   load_vector_store corrupt_disk \<lparr>vector_store = None\<rparr> = Inr (None, \<lparr>vector_store = None\<rparr>) \<and>
   embeddings_error no_index_env = None \<and> \<not> faiss_index_exists no_index_env \<and>
   get_answer_safe stored_search (startup no_index_env) ''What services?'' = unavailable_message \<and>
   embeddings_error failing_env = Some (LibraryError ''numpy is not available'') \<and>
   get_answer stored_search (startup failing_env) ''What services?'' =
     Inr (system_error_message ''numpy is not available'')"
proof -
  have a: "\<not> (index_exists no_index_disk \<and> metadata_exists no_index_disk)"
    by (simp add: no_index_disk_def)
  have b: "load_local corrupt_disk = Inl (LibraryError ''bad index file'')"
    by (simp add: corrupt_disk_def)
  have c: "embeddings_error no_index_env = None \<and> \<not> faiss_index_exists no_index_env"
    by (simp add: no_index_env_def)
  have d: "embeddings_error failing_env = Some (LibraryError ''numpy is not available'')"
    by (simp add: failing_env_def)
  have 1: "load_vector_store no_index_disk \<lparr>vector_store = None\<rparr> = Inr (None, \<lparr>vector_store = None\<rparr>)"
    using load_without_index [where d = no_index_disk and vs = "\<lparr>vector_store = None\<rparr>"] a
    by blast
  have "\<exists>vs'. load_vector_store corrupt_disk \<lparr>vector_store = None\<rparr> = Inr (None, vs')"
    using load_without_index [where d = corrupt_disk and vs = "\<lparr>vector_store = None\<rparr>"
        and e = "LibraryError ''bad index file''"] b
    by blast
  then have 2: "load_vector_store corrupt_disk \<lparr>vector_store = None\<rparr> = Inr (None, \<lparr>vector_store = None\<rparr>)"
    by (auto simp: load_vector_store_def corrupt_disk_def)
  have 3: "get_answer_safe stored_search (startup no_index_env) ''What services?'' = unavailable_message"
    using load_without_index [where env = no_index_env and ls = stored_search
        and q = "''What services?''"] c
    by blast
  have "get_answer stored_search (startup failing_env) ''What services?'' =
     Inr (if str_error (LibraryError ''numpy is not available'') = [] then unavailable_message
          else system_error_message (str_error (LibraryError ''numpy is not available'')))"
    using load_without_index [where env = failing_env and ls = stored_search
        and q = "''What services?''" and e = "LibraryError ''numpy is not available''"] d
    by blast
  then have 4: "get_answer stored_search (startup failing_env) ''What services?'' =
     Inr (system_error_message ''numpy is not available'')"
    by simp
  from a b c d 1 2 3 4 show ?thesis by simp
qed


section \<open>The deployed chat path\<close>

text \<open>
  Claim C10. With the index loaded and no import error, \<open>get_answer\<close> returns the
  \<open>page_content\<close> of the first document the search found, unchanged, and the fixed
  not-found message when the search found nothing; for a query that is not empty the handler
  of \<open>app.py\<close> puts exactly that into the transcript. No language model is among the
  things \<open>get_answer\<close> uses.
\<close>

theorem deployed_answer_is_first_document:
  "(reported_error cb = None \<and> db cb = Some index \<and> ls index q 2 = Inr (doc # others) \<longrightarrow>
      get_answer ls cb q = Inr (page_content doc) \<and>
      get_answer_safe ls cb q = page_content doc \<and>
      (q \<noteq> [] \<longrightarrow>
         handle_query ls cb chat_history (Some q) =
           chat_history @ [(''You'', q), (''Bot'', page_content doc)])) \<and>
   (reported_error cb = None \<and> db cb = Some index \<and> ls index q 2 = Inr [] \<longrightarrow>
      get_answer ls cb q = Inr not_found_message \<and>
      get_answer_safe ls cb q = not_found_message \<and>
      (q \<noteq> [] \<longrightarrow>
         handle_query ls cb chat_history (Some q) =
           chat_history @ [(''You'', q), (''Bot'', not_found_message)])) \<and>
   handle_query ls cb chat_history None = chat_history \<and>
   handle_query ls cb chat_history (Some []) = chat_history"
  by (simp add: get_answer_def get_answer_safe_def handle_query_def)

text \<open>Claim C10 at an index of two documents and at an empty index.\<close>

theorem deployed_answer_is_first_document_witness:
  "reported_error loaded_chatbot = None \<and> db loaded_chatbot = Some small_index \<and>
   stored_search small_index ''What services?'' 2 = Inr [services_doc, about_doc] \<and>
   get_answer_safe stored_search loaded_chatbot ''What services?'' =
     ''We offer consulting and training.'' \<and>
   ''What services?'' \<noteq> [] \<and>
   handle_query stored_search loaded_chatbot [] (Some ''What services?'') =
     [(''You'', ''What services?''), (''Bot'', ''We offer consulting and training.'')] \<and>
   reported_error empty_chatbot = None \<and> db empty_chatbot = Some empty_index \<and>
   stored_search empty_index ''What services?'' 2 = Inr [] \<and>
   get_answer_safe stored_search empty_chatbot ''What services?'' =
     ''Sorry, I could not find relevant information.'' \<and>
   handle_query stored_search empty_chatbot [] (Some ''What services?'') =
     [(''You'', ''What services?''), (''Bot'', ''Sorry, I could not find relevant information.'')]"
proof -
  have a: "reported_error loaded_chatbot = None \<and> db loaded_chatbot = Some small_index \<and>
     stored_search small_index ''What services?'' 2 = Inr [services_doc, about_doc]"
    by (simp add: reported_error_def loaded_chatbot_def stored_search_def small_index_def
        numeral_2_eq_2)
  have b: "reported_error empty_chatbot = None \<and> db empty_chatbot = Some empty_index \<and>
     stored_search empty_index ''What services?'' 2 = Inr []"
    by (simp add: reported_error_def empty_chatbot_def stored_search_def empty_index_def)
  have c: "''What services?'' \<noteq> []" by simp
  note t1 = deployed_answer_is_first_document [where cb = loaded_chatbot and index = small_index
        and ls = stored_search and q = "''What services?''" and doc = services_doc
        and others = "[about_doc]" and chat_history = "[]"]
  note t2 = deployed_answer_is_first_document [where cb = empty_chatbot and index = empty_index
        and ls = stored_search and q = "''What services?''" and chat_history = "[]"]
  have 1: "get_answer_safe stored_search loaded_chatbot ''What services?'' = page_content services_doc"
    using t1 a by blast
  have 2: "handle_query stored_search loaded_chatbot [] (Some ''What services?'') =
     [] @ [(''You'', ''What services?''), (''Bot'', page_content services_doc)]"
    using t1 a c by blast
  have 3: "get_answer_safe stored_search empty_chatbot ''What services?'' = not_found_message"
    using t2 b by blast
  have 4: "handle_query stored_search empty_chatbot [] (Some ''What services?'') =
     [] @ [(''You'', ''What services?''), (''Bot'', not_found_message)]"
    using t2 b c by blast
  from a b 1 2 3 4 show ?thesis by (simp add: services_doc_def not_found_message_def)
qed


section \<open>The answer pipeline without a vector store\<close>

text \<open>
  Claim C3 does not hold of the code: on a pipeline that has no chain yet and no vector
  store, or a vector store that is not initialized, \<open>answer_question\<close> raises the
  \<open>ValueError\<close> of \<open>create_qa_chain\<close>, which it calls before its \<open>try\<close> block.
\<close>

theorem answer_question_raises_without_store:
  "answer_question lib \<lparr>pipeline_store = None, qa_chain = None\<rparr> q =
     Inl (ValueError ''Vector store not initialized'') \<and>
   answer_question lib \<lparr>pipeline_store = Some \<lparr>vector_store = None\<rparr>, qa_chain = None\<rparr> q =
     Inl (ValueError ''Vector store not initialized'')"
  by (simp add: answer_question_def create_qa_chain_def)


section \<open>Which links are accepted\<close>








section \<open>The crawl loops: invariants\<close>

lemma scrape_loop_invariant:
  "I st \<Longrightarrow>
   (\<forall>s. I s \<longrightarrow> urls_to_visit s \<noteq> [] \<longrightarrow> int (length (pages s)) < max_pages \<longrightarrow>
        I (scrape_iteration lib w max_pages s)) \<Longrightarrow>
   I (scrape_loop lib w max_pages st)"
proof (induction lib w max_pages st rule: scrape_loop.induct)
  case (1 lib w max_pages st)
  show ?case
  proof (cases "urls_to_visit st \<noteq> [] \<and> int (length (pages st)) < max_pages")
    case True
    then have "I (scrape_iteration lib w max_pages st)" using "1.prems" by blast
    then have "I (scrape_loop lib w max_pages (scrape_iteration lib w max_pages st))"
      using "1.IH" True "1.prems"(2) by blast
    then show ?thesis using True by (subst scrape_loop.simps) simp
  next
    case False
    then show ?thesis using "1.prems"(1) by (subst scrape_loop.simps) auto
  qed
qed

lemma scrape_loop_exit:
  "urls_to_visit (scrape_loop lib w max_pages st) = [] \<or>
   max_pages \<le> int (length (pages (scrape_loop lib w max_pages st)))"
proof (induction lib w max_pages st rule: scrape_loop.induct)
  case (1 lib w max_pages st)
  show ?case
  proof (cases "urls_to_visit st \<noteq> [] \<and> int (length (pages st)) < max_pages")
    case True
    have e: "scrape_loop lib w max_pages st =
             scrape_loop lib w max_pages (scrape_iteration lib w max_pages st)"
      using True by (subst scrape_loop.simps) simp
    show ?thesis unfolding e using "1.IH" True by blast
  next
    case False
    have e: "scrape_loop lib w max_pages st = st"
      using False by (subst scrape_loop.simps) auto
    show ?thesis unfolding e using False by auto
  qed
qed

lemma scrape_page_ingestion_url:
  "scrape_page_ingestion lib u r = Some p \<Longrightarrow> url p = u"
  by (cases r) (auto simp: scrape_page_ingestion_def Let_def split: if_splits sum.splits)

lemma scrape_iteration_visited:
  "urls_to_visit s = u # rest \<Longrightarrow> u \<in> visited_urls s \<Longrightarrow>
   scrape_iteration lib w max_pages s = s\<lparr>urls_to_visit := rest\<rparr>"
  by (simp add: scrape_iteration_def)

lemma scrape_iteration_failed:
  "urls_to_visit s = u # rest \<Longrightarrow> u \<notin> visited_urls s \<Longrightarrow>
   scrape_page_ingestion lib u (w (requests s) u) = None \<Longrightarrow>
   scrape_iteration lib w max_pages s =
     s\<lparr>urls_to_visit := rest, visited_urls := insert u (visited_urls s),
       requests := requests s @ [u], scraped := scraped s @ [u]\<rparr>"
  by (simp add: scrape_iteration_def)

lemma scrape_iteration_page:
  "urls_to_visit s = u # rest \<Longrightarrow> u \<notin> visited_urls s \<Longrightarrow>
   scrape_page_ingestion lib u (w (requests s) u) = Some p \<Longrightarrow>
   scrape_iteration lib w max_pages s =
     s\<lparr>urls_to_visit := (if int (length (pages s)) + 1 < max_pages then rest @ links p else rest),
       visited_urls := insert u (visited_urls s),
       requests := requests s @ [u], scraped := scraped s @ [u],
       pages := pages s @ [p]\<rparr>"
  by (simp add: scrape_iteration_def Let_def)

lemma scrape_inv_step:
  assumes i: "scrape_inv lib w max_pages s" and f: "urls_to_visit s \<noteq> []"
    and g: "int (length (pages s)) < max_pages"
  shows "scrape_inv lib w max_pages (scrape_iteration lib w max_pages s)"
proof -
  obtain u rest where ur: "urls_to_visit s = u # rest" using f by (cases "urls_to_visit s") auto
  from i have i1: "distinct (scraped s)" and i2: "set (scraped s) \<subseteq> visited_urls s"
    and i3: "requests s = scraped s" and i4: "int (length (pages s)) \<le> max 0 max_pages"
    and i5: "distinct (map url (pages s))" and i6: "set (map url (pages s)) \<subseteq> set (scraped s)"
    and i7: "list_all (\<lambda>p. \<exists>log sp. w log (url p) = Parsed sp \<and>
           scrape_page_ingestion lib (url p) (Parsed sp) = Some p) (pages s)"
    by (simp_all add: scrape_inv_def)
  show ?thesis
  proof (cases "u \<in> visited_urls s")
    case True
    show ?thesis
      unfolding scrape_iteration_visited [OF ur True]
      using i by (simp add: scrape_inv_def)
  next
    case False
    then have ns: "u \<notin> set (scraped s)" using i2 by blast
    show ?thesis
    proof (cases "scrape_page_ingestion lib u (w (requests s) u)")
      case None
      show ?thesis
        unfolding scrape_iteration_failed [where w = w and lib = lib, OF ur False None] scrape_inv_def
        using i1 i2 i3 i4 i5 i6 i7 ns by (auto simp: subset_insertI2)
    next
      case (Some p)
      then have up: "url p = u" by (rule scrape_page_ingestion_url)
      obtain sp where sp: "w (requests s) u = Parsed sp"
        using Some by (cases "w (requests s) u") (simp_all add: scrape_page_ingestion_def)
      have origin: "\<exists>log sp. w log (url p) = Parsed sp \<and>
           scrape_page_ingestion lib (url p) (Parsed sp) = Some p"
        using Some sp up by auto
      have fresh: "u \<notin> set (map url (pages s))" using ns i6 by blast
      have len: "int (length (pages s)) + 1 \<le> max 0 max_pages" using g by simp
      show ?thesis
        unfolding scrape_iteration_page [where w = w and lib = lib, OF ur False Some] scrape_inv_def
        using i1 i2 i3 i5 i6 i7 ns up origin fresh len
        by (auto simp: subset_insertI2)
    qed
  qed
qed

lemma scrape_inv_final:
  "scrape_inv lib w max_pages (scrape_loop lib w max_pages (scrape_start base_url))"
proof (rule scrape_loop_invariant)
  show "scrape_inv lib w max_pages (scrape_start base_url)"
    by (simp add: scrape_inv_def scrape_start_def)
  show "\<forall>s. scrape_inv lib w max_pages s \<longrightarrow> urls_to_visit s \<noteq> [] \<longrightarrow>
      int (length (pages s)) < max_pages \<longrightarrow>
      scrape_inv lib w max_pages (scrape_iteration lib w max_pages s)"
    using scrape_inv_step by blast
qed

lemma crawl_loop_invariant:
  "I st \<Longrightarrow>
   (\<forall>s. I s \<longrightarrow> urls_to_visit s \<noteq> [] \<longrightarrow> int (length (pages s)) < max_pages \<longrightarrow>
        I (crawl_iteration lib w max_depth restr max_pages s)) \<Longrightarrow>
   I (crawl_loop lib w max_depth restr max_pages st)"
proof (induction lib w max_depth restr max_pages st rule: crawl_loop.induct)
  case (1 lib w max_depth restr max_pages st)
  show ?case
  proof (cases "urls_to_visit st \<noteq> [] \<and> int (length (pages st)) < max_pages")
    case True
    then have "I (crawl_iteration lib w max_depth restr max_pages st)" using "1.prems" by blast
    then have "I (crawl_loop lib w max_depth restr max_pages
                   (crawl_iteration lib w max_depth restr max_pages st))"
      using "1.IH" True "1.prems"(2) by blast
    then show ?thesis using True by (subst crawl_loop.simps) simp
  next
    case False
    then show ?thesis using "1.prems"(1) by (subst crawl_loop.simps) auto
  qed
qed

lemma crawl_loop_exit:
  "urls_to_visit (crawl_loop lib w max_depth restr max_pages st) = [] \<or>
   max_pages \<le> int (length (pages (crawl_loop lib w max_depth restr max_pages st)))"
proof (induction lib w max_depth restr max_pages st rule: crawl_loop.induct)
  case (1 lib w max_depth restr max_pages st)
  show ?case
  proof (cases "urls_to_visit st \<noteq> [] \<and> int (length (pages st)) < max_pages")
    case True
    have e: "crawl_loop lib w max_depth restr max_pages st =
             crawl_loop lib w max_depth restr max_pages
               (crawl_iteration lib w max_depth restr max_pages st)"
      using True by (subst crawl_loop.simps) simp
    show ?thesis unfolding e using "1.IH" True by blast
  next
    case False
    have e: "crawl_loop lib w max_depth restr max_pages st = st"
      using False by (subst crawl_loop.simps) auto
    show ?thesis unfolding e using False by auto
  qed
qed

lemma scrape_page_url: "scrape_page u r = Some p \<Longrightarrow> url p = u"
  by (cases r) (auto simp: scrape_page_def Let_def)

lemma crawl_iteration_skip:
  "urls_to_visit s = (u, depth) # rest \<Longrightarrow> u \<in> visited_urls s \<or> max_depth < depth \<Longrightarrow>
   crawl_iteration lib w max_depth restr max_pages s = s\<lparr>urls_to_visit := rest\<rparr>"
  by (simp add: crawl_iteration_def)

lemma crawl_iteration_failed:
  "urls_to_visit s = (u, depth) # rest \<Longrightarrow> u \<notin> visited_urls s \<Longrightarrow> \<not> max_depth < depth \<Longrightarrow>
   scrape_page u (w (requests s) u) = None \<Longrightarrow>
   crawl_iteration lib w max_depth restr max_pages s =
     s\<lparr>urls_to_visit := rest, visited_urls := insert u (visited_urls s),
       requests := requests s @ [u], scraped := scraped s @ [(u, depth)]\<rparr>"
  by (simp add: crawl_iteration_def)

lemma crawl_iteration_page:
  assumes "urls_to_visit s = (u, depth) # rest" "u \<notin> visited_urls s" "\<not> max_depth < depth"
    "scrape_page u (w (requests s) u) = Some p"
  shows "visited_urls (crawl_iteration lib w max_depth restr max_pages s) = insert u (visited_urls s)"
    and "scraped (crawl_iteration lib w max_depth restr max_pages s) = scraped s @ [(u, depth)]"
    and "pages (crawl_iteration lib w max_depth restr max_pages s) = pages s @ [p]"
  using assms
  by (simp_all add: crawl_iteration_def Let_def split: fetched.splits sum.splits)

lemma crawl_iteration_page_frontier:
  assumes "urls_to_visit s = (u, depth) # rest" "u \<notin> visited_urls s" "\<not> max_depth < depth"
    "scrape_page u (w (requests s) u) = Some p"
    "list_all (\<lambda>entry. 0 \<le> snd entry) rest" "0 \<le> depth"
  shows "list_all (\<lambda>entry. 0 \<le> snd entry)
           (urls_to_visit (crawl_iteration lib w max_depth restr max_pages s))"
  using assms
  by (auto simp: crawl_iteration_def Let_def list_all_iff split: fetched.splits sum.splits)

lemma crawl_inv_step:
  assumes i: "crawl_inv w max_depth seen max_pages s" and f: "urls_to_visit s \<noteq> []"
    and g: "int (length (pages s)) < max_pages"
  shows "crawl_inv w max_depth seen max_pages (crawl_iteration lib w max_depth restr max_pages s)"
proof -
  obtain u depth rest where ur: "urls_to_visit s = (u, depth) # rest"
    using f by (cases "urls_to_visit s") auto
  from i have i1: "distinct (map fst (scraped s))"
    and i2: "set (map fst (scraped s)) \<subseteq> visited_urls s"
    and i3: "seen \<subseteq> visited_urls s" and i4: "set (map fst (scraped s)) \<inter> seen = {}"
    and i5: "list_all (\<lambda>entry. 0 \<le> snd entry) (urls_to_visit s)"
    and i6: "list_all (\<lambda>entry. 0 \<le> snd entry \<and> snd entry \<le> max_depth) (scraped s)"
    and i7: "int (length (pages s)) \<le> max 0 max_pages"
    and i8: "distinct (map url (pages s))"
    and i9: "set (map url (pages s)) \<subseteq> set (map fst (scraped s))"
    and i10: "list_all (\<lambda>p. \<exists>log sp. w log (url p) = Parsed sp \<and>
           scrape_page (url p) (Parsed sp) = Some p) (pages s)"
    by (simp_all add: crawl_inv_def)
  from i5 ur have d0: "0 \<le> depth" and r0: "list_all (\<lambda>entry. 0 \<le> snd entry) rest"
    by simp_all
  show ?thesis
  proof (cases "u \<in> visited_urls s \<or> max_depth < depth")
    case True
    show ?thesis
      unfolding crawl_iteration_skip [where lib = lib and w = w, OF ur True]
      using i r0 by (simp add: crawl_inv_def)
  next
    case False
    then have nv: "u \<notin> visited_urls s" and dm: "\<not> max_depth < depth" by simp_all
    have ns: "u \<notin> set (map fst (scraped s))" using nv i2 by blast
    have nseen: "u \<notin> seen" using nv i3 by blast
    show ?thesis
    proof (cases "scrape_page u (w (requests s) u)")
      case None
      show ?thesis
        unfolding crawl_iteration_failed [where lib = lib and w = w, OF ur nv dm None]
          crawl_inv_def
        using i1 i2 i3 i4 i6 i7 i8 i9 i10 ns nseen d0 dm r0
        by (auto simp: subset_insertI2)
    next
      case (Some p)
      note pg = crawl_iteration_page [where lib = lib and w = w and restr = restr
          and max_pages = max_pages, OF ur nv dm Some]
      note fr = crawl_iteration_page_frontier [where lib = lib and w = w and restr = restr
          and max_pages = max_pages, OF ur nv dm Some r0 d0]
      from Some have up: "url p = u" by (rule scrape_page_url)
      obtain sp where sp: "w (requests s) u = Parsed sp"
        using Some by (cases "w (requests s) u") (simp_all add: scrape_page_def)
      have origin: "\<exists>log sp. w log (url p) = Parsed sp \<and> scrape_page (url p) (Parsed sp) = Some p"
        using Some sp up by auto
      have fresh: "u \<notin> set (map url (pages s))" using ns i9 by blast
      have len: "int (length (pages s)) + 1 \<le> max 0 max_pages" using g by simp
      show ?thesis
        unfolding crawl_inv_def pg
        using fr i1 i2 i3 i4 i6 i8 i9 i10 ns nseen d0 dm up origin fresh len
        by (auto simp: subset_insertI2)
    qed
  qed
qed

lemma crawl_inv_final:
  "crawl_inv w max_depth seen max_pages
     (crawl_website lib w max_depth restr seen start_url max_pages)"
  unfolding crawl_website_def
proof (rule crawl_loop_invariant)
  show "crawl_inv w max_depth seen max_pages (crawl_start seen start_url)"
    by (simp add: crawl_inv_def crawl_start_def)
  show "\<forall>s. crawl_inv w max_depth seen max_pages s \<longrightarrow> urls_to_visit s \<noteq> [] \<longrightarrow>
      int (length (pages s)) < max_pages \<longrightarrow>
      crawl_inv w max_depth seen max_pages (crawl_iteration lib w max_depth restr max_pages s)"
    using crawl_inv_step by blast
qed


section \<open>What the crawl loops guarantee\<close>

text \<open>
  Claim C2, as amended. Both loops are total: they return, with the frontier empty or
  \<open>max_pages\<close> pages collected. One call of either never hands the same URL to the page
  scraper twice (\<open>scrape_website\<close> sends one request for each URL it scrapes), never returns a
  page of the same URL twice, and returns at most \<open>max_pages\<close> pages, none when \<open>max_pages\<close>
  is negative. \<open>crawl_website\<close> scrapes no URL that was in the visited set of the scraper
  object before the call, and only URLs whose frontier depth is between 0 and the
  \<open>max_depth\<close> of the object. \<open>scrape_website\<close> keeps no depth and has no bound on it.
\<close>

theorem crawl_loops_bounded:
  "distinct (scraped (scrape_loop lib w max_pages (scrape_start base_url))) \<and>
   requests (scrape_loop lib w max_pages (scrape_start base_url)) =
     scraped (scrape_loop lib w max_pages (scrape_start base_url)) \<and>
   distinct (map url (scrape_website lib w base_url max_pages)) \<and>
   int (length (scrape_website lib w base_url max_pages)) \<le> max 0 max_pages \<and>
   (urls_to_visit (scrape_loop lib w max_pages (scrape_start base_url)) = [] \<or>
    max_pages \<le> int (length (scrape_website lib w base_url max_pages))) \<and>
   distinct (map fst (scraped (crawl_website lib w max_depth restr seen start_url max_pages))) \<and>
   (\<forall>entry \<in> set (scraped (crawl_website lib w max_depth restr seen start_url max_pages)).
      fst entry \<notin> seen \<and> 0 \<le> snd entry \<and> snd entry \<le> max_depth) \<and>
   distinct (map url (pages (crawl_website lib w max_depth restr seen start_url max_pages))) \<and>
   int (length (pages (crawl_website lib w max_depth restr seen start_url max_pages)))
     \<le> max 0 max_pages \<and>
   (urls_to_visit (crawl_website lib w max_depth restr seen start_url max_pages) = [] \<or>
    max_pages \<le> int (length (pages (crawl_website lib w max_depth restr seen start_url max_pages))))"
proof -
  note s = scrape_inv_final [of lib w max_pages base_url, unfolded scrape_inv_def]
  note c = crawl_inv_final [of w max_depth seen max_pages lib restr start_url,
      unfolded crawl_inv_def]
  note se = scrape_loop_exit [of lib w max_pages "scrape_start base_url"]
  note ce = crawl_loop_exit [of lib w max_depth restr max_pages "crawl_start seen start_url"]
  have c7: "\<forall>entry \<in> set (scraped (crawl_website lib w max_depth restr seen start_url max_pages)).
      fst entry \<notin> seen \<and> 0 \<le> snd entry \<and> snd entry \<le> max_depth"
    using c by (auto simp: list_all_iff)
  show ?thesis
    using s c se ce c7
    by (simp add: scrape_website_def crawl_website_def)
qed

text \<open>
  Claim C2 as stated fails. On a site where page \<open>a\<close> links to \<open>b\<close> only and \<open>b\<close> links to
  \<open>c\<close>, \<open>scrape_website\<close> scrapes \<open>c\<close>, two links away from the start, where \<open>crawl_website\<close>
  with depth 1 stops at \<open>b\<close>: it has no depth to compare with any \<open>max_depth\<close>. And with
  \<open>max_pages = -1\<close> the result has no entry, which is more than \<open>max_pages\<close>.
\<close>

theorem crawl_claim_fails:
  "map url (scrape_website sample_lib chain_web ''http://example.com/a'' 3) =
     [''http://example.com/a'', ''http://example.com/b'', ''http://example.com/c''] \<and>
   scraped (crawl_website sample_lib chain_web 1 True {} ''http://example.com/a'' 3) =
     [(''http://example.com/a'', 0), (''http://example.com/b'', 1)] \<and>
   \<not> int (length (scrape_website sample_lib chain_web ''http://example.com/a'' (- 1))) \<le> - 1"
  by code_simp

text \<open>The amended claim on the same site.\<close>

theorem crawl_loops_bounded_witness:
  "scraped (crawl_website sample_lib chain_web 1 True {} ''http://example.com/a'' 3) =
     [(''http://example.com/a'', 0), (''http://example.com/b'', 1)] \<and>
   distinct (map fst (scraped (crawl_website sample_lib chain_web 1 True {} ''http://example.com/a'' 3))) \<and>
   list_all (\<lambda>entry. fst entry \<notin> {} \<and> 0 \<le> snd entry \<and> snd entry \<le> 1)
     (scraped (crawl_website sample_lib chain_web 1 True {} ''http://example.com/a'' 3)) \<and>
   map url (pages (crawl_website sample_lib chain_web 1 True {} ''http://example.com/a'' 3)) =
     [''http://example.com/a'', ''http://example.com/b''] \<and>
   urls_to_visit (crawl_website sample_lib chain_web 1 True {} ''http://example.com/a'' 3) = [] \<and>
   requests (scrape_loop sample_lib chain_web 2 (scrape_start ''http://example.com/a'')) =
     [''http://example.com/a'', ''http://example.com/b''] \<and>
   distinct (scraped (scrape_loop sample_lib chain_web 2 (scrape_start ''http://example.com/a''))) \<and>
   int (length (scrape_website sample_lib chain_web ''http://example.com/a'' 2)) \<le> max 0 2 \<and>
   (2::int) \<le> int (length (scrape_website sample_lib chain_web ''http://example.com/a'' 2))"
proof -
  note t = crawl_loops_bounded [where lib = sample_lib and w = chain_web and max_pages = 3
      and max_depth = 1 and restr = True and seen = "{}" and start_url = "''http://example.com/a''"]
  note t2 = crawl_loops_bounded [where lib = sample_lib and w = chain_web and max_pages = 2
      and base_url = "''http://example.com/a''"]
  have a: "scraped (crawl_website sample_lib chain_web 1 True {} ''http://example.com/a'' 3) =
     [(''http://example.com/a'', 0), (''http://example.com/b'', 1)]"
    by code_simp
  have b: "map url (pages (crawl_website sample_lib chain_web 1 True {} ''http://example.com/a'' 3)) =
     [''http://example.com/a'', ''http://example.com/b'']"
    by code_simp
  have c: "urls_to_visit (crawl_website sample_lib chain_web 1 True {} ''http://example.com/a'' 3) = []"
    by code_simp
  have d: "requests (scrape_loop sample_lib chain_web 2 (scrape_start ''http://example.com/a'')) =
     [''http://example.com/a'', ''http://example.com/b'']"
    by code_simp
  have e: "(2::int) \<le> int (length (scrape_website sample_lib chain_web ''http://example.com/a'' 2))"
    by code_simp
  from t have f: "distinct (map fst (scraped (crawl_website sample_lib chain_web 1 True {} ''http://example.com/a'' 3)))"
    by blast
  from t have g: "list_all (\<lambda>entry. fst entry \<notin> {} \<and> 0 \<le> snd entry \<and> snd entry \<le> 1)
     (scraped (crawl_website sample_lib chain_web 1 True {} ''http://example.com/a'' 3))"
    unfolding list_all_iff by blast
  from t2 have h: "distinct (scraped (scrape_loop sample_lib chain_web 2 (scrape_start ''http://example.com/a'')))"
    by blast
  from t2 have i: "int (length (scrape_website sample_lib chain_web ''http://example.com/a'' 2)) \<le> max 0 2"
    by blast
  from a b c d e f g h i show ?thesis by (intro conjI)
qed


section \<open>Which pages are kept\<close>

lemma scrape_page_ingestion_text:
  assumes "scrape_page_ingestion lib u (Parsed sp) = Some p"
  shows "0 < length (strip (extract_main_content sp))"
    and "content p = clean_text_ingestion (extract_main_content sp)"
  using assms
  by (auto simp: scrape_page_ingestion_def Let_def split: if_splits sum.splits)

lemma scrape_page_ingestion_kept:
  assumes "0 < length (strip (extract_main_content sp))"
    and "extract_links_ingestion lib sp u = Inr found"
  shows "scrape_page_ingestion lib u (Parsed sp) \<noteq> None"
proof -
  have "extract_main_content sp \<noteq> []"
    using assms(1) by (auto simp: strip_def)
  with assms show ?thesis by (simp add: scrape_page_ingestion_def Let_def)
qed

lemma scrape_page_ingestion_blank:
  assumes "strip (extract_main_content sp) = []"
  shows "scrape_page_ingestion lib u (Parsed sp) = None"
  using assms by (simp add: scrape_page_ingestion_def Let_def)

text \<open>
  Claim C5, as amended. \<open>WebsiteIngestion.scrape_page\<close> returns a page for a parsed
  response only if the text it extracted, stripped, is not empty; a text of 1 to 99
  characters is logged and kept, so the threshold is zero, and it is on the text before
  cleaning. Every page \<open>scrape_website\<close> returns is such a page. \<open>AdvancedWebScraper.scrape_page\<close>
  returns a page for every parsed response, whatever its text, and \<open>crawl_website\<close> appends
  it.
\<close>

theorem page_text_thresholds:
  "(scrape_page_ingestion lib u (Parsed sp) = Some p \<longrightarrow>
      0 < length (strip (extract_main_content sp)) \<and>
      content p = clean_text_ingestion (extract_main_content sp)) \<and>
   (strip (extract_main_content sp) = [] \<longrightarrow> scrape_page_ingestion lib u (Parsed sp) = None) \<and>
   (0 < length (strip (extract_main_content sp)) \<and> extract_links_ingestion lib sp u = Inr found \<longrightarrow>
      scrape_page_ingestion lib u (Parsed sp) \<noteq> None) \<and>
   (\<forall>q \<in> set (scrape_website lib w base_url max_pages).
      \<exists>log sq. w log (url q) = Parsed sq \<and>
        scrape_page_ingestion lib (url q) (Parsed sq) = Some q \<and>
        0 < length (strip (extract_main_content sq))) \<and>
   (\<exists>q. scrape_page u (Parsed sp) = Some q \<and>
        content q = clean_text_scraper (extract_content_smart sp)) \<and>
   (urls_to_visit s = (u, depth) # rest \<and> u \<notin> visited_urls s \<and> depth \<le> max_depth \<and>
    w (requests s) u = Parsed sp \<longrightarrow>
      (\<exists>q. scrape_page u (Parsed sp) = Some q \<and>
           pages (crawl_iteration lib w max_depth restr max_pages s) = pages s @ [q]))"
proof (intro conjI impI ballI)
  assume "scrape_page_ingestion lib u (Parsed sp) = Some p"
  then show "0 < length (strip (extract_main_content sp))"
    and "content p = clean_text_ingestion (extract_main_content sp)"
    by (rule scrape_page_ingestion_text)+
next
  assume "strip (extract_main_content sp) = []"
  then show "scrape_page_ingestion lib u (Parsed sp) = None"
    by (rule scrape_page_ingestion_blank)
next
  assume "0 < length (strip (extract_main_content sp)) \<and> extract_links_ingestion lib sp u = Inr found"
  then show "scrape_page_ingestion lib u (Parsed sp) \<noteq> None"
    using scrape_page_ingestion_kept by blast
next
  fix q assume q: "q \<in> set (scrape_website lib w base_url max_pages)"
  have "list_all (\<lambda>p. \<exists>log sp. w log (url p) = Parsed sp \<and>
           scrape_page_ingestion lib (url p) (Parsed sp) = Some p)
         (pages (scrape_loop lib w max_pages (scrape_start base_url)))"
    using scrape_inv_final [of lib w max_pages base_url] by (simp add: scrape_inv_def)
  with q obtain log sq where o: "w log (url q) = Parsed sq"
      "scrape_page_ingestion lib (url q) (Parsed sq) = Some q"
    unfolding list_all_iff scrape_website_def by blast
  from o(2) have "0 < length (strip (extract_main_content sq))"
    by (rule scrape_page_ingestion_text)
  with o show "\<exists>log sq. w log (url q) = Parsed sq \<and>
        scrape_page_ingestion lib (url q) (Parsed sq) = Some q \<and>
        0 < length (strip (extract_main_content sq))"
    by blast
next
  show "\<exists>q. scrape_page u (Parsed sp) = Some q \<and>
        content q = clean_text_scraper (extract_content_smart sp)"
    by (simp add: scrape_page_def Let_def)
next
  assume a: "urls_to_visit s = (u, depth) # rest \<and> u \<notin> visited_urls s \<and> depth \<le> max_depth \<and>
    w (requests s) u = Parsed sp"
  obtain q where q: "scrape_page u (Parsed sp) = Some q"
    by (simp add: scrape_page_def Let_def)
  from a q have "pages (crawl_iteration lib w max_depth restr max_pages s) = pages s @ [q]"
    by (intro crawl_iteration_page(3) [where u = u and depth = depth and rest = rest]) simp_all
  with q show "\<exists>q. scrape_page u (Parsed sp) = Some q \<and>
           pages (crawl_iteration lib w max_depth restr max_pages s) = pages s @ [q]"
    by blast
qed

text \<open>
  Claim C5 as stated fails: \<open>crawl_website\<close> returns the page of a document without any
  text, and \<open>scrape_website\<close> returns a page whose text has two letters.
\<close>

theorem near_empty_pages_kept:
  "map content (pages (crawl_website sample_lib blank_web 2 True {} ''http://example.com/'' 5)) = [[]] \<and>
   map content (scrape_website sample_lib tiny_web ''http://example.com/'' 5) = [''Hi'']"
  by code_simp

text \<open>The amended claim at a document without text, one of two letters, and a small site.\<close>

theorem page_text_thresholds_witness:
  "strip (extract_main_content (plain_soup None [])) = [] \<and>
   scrape_page_ingestion sample_lib ''http://example.com/'' (Parsed (plain_soup None [])) = None \<and>
   0 < length (strip (extract_main_content (plain_soup (Some ''Hi'') []))) \<and>
   extract_links_ingestion sample_lib (plain_soup (Some ''Hi'') []) ''http://example.com/'' = Inr [] \<and>
   scrape_page_ingestion sample_lib ''http://example.com/'' (Parsed (plain_soup (Some ''Hi'') [])) \<noteq> None \<and>
   map url (scrape_website sample_lib chain_web ''http://example.com/a'' 2) =
     [''http://example.com/a'', ''http://example.com/b''] \<and>
   list_all (\<lambda>q. \<exists>log sq. chain_web log (url q) = Parsed sq \<and>
        scrape_page_ingestion sample_lib (url q) (Parsed sq) = Some q \<and>
        0 < length (strip (extract_main_content sq)))
     (scrape_website sample_lib chain_web ''http://example.com/a'' 2)"
proof -
  have a: "strip (extract_main_content (plain_soup None [])) = []" by code_simp
  have b: "0 < length (strip (extract_main_content (plain_soup (Some ''Hi'') []))) \<and>
     extract_links_ingestion sample_lib (plain_soup (Some ''Hi'') []) ''http://example.com/'' = Inr []"
    by code_simp
  have c: "map url (scrape_website sample_lib chain_web ''http://example.com/a'' 2) =
     [''http://example.com/a'', ''http://example.com/b'']"
    by code_simp
  note t1 = page_text_thresholds [where lib = sample_lib and u = "''http://example.com/''"
      and sp = "plain_soup None []"]
  note t2 = page_text_thresholds [where lib = sample_lib and u = "''http://example.com/''"
      and sp = "plain_soup (Some ''Hi'') []" and found = "[]" and w = chain_web
      and base_url = "''http://example.com/a''" and max_pages = 2]
  from t1 a have d: "scrape_page_ingestion sample_lib ''http://example.com/''
      (Parsed (plain_soup None [])) = None"
    by blast
  from t2 b have e: "scrape_page_ingestion sample_lib ''http://example.com/''
      (Parsed (plain_soup (Some ''Hi'') [])) \<noteq> None"
    by blast
  from t2 have f: "list_all (\<lambda>q. \<exists>log sq. chain_web log (url q) = Parsed sq \<and>
        scrape_page_ingestion sample_lib (url q) (Parsed sq) = Some q \<and>
        0 < length (strip (extract_main_content sq)))
     (scrape_website sample_lib chain_web ''http://example.com/a'' 2)"
    unfolding list_all_iff by blast
  from a b c d e f show ?thesis by (intro conjI) simp_all
qed


end
